theory Spec2Isabelle
  imports Complex_Main "HOL-Library.Word"
begin

unbundle bit_operations_syntax

section \<open>The uniform grid of spatial-cpp\<close>

text \<open>
  A shallow embedding of \<^verbatim>\<open>spatial::Grid\<close> (grid.hpp) with the value types it
  uses: \<^verbatim>\<open>Vector2\<close> (vector2.hpp), \<^verbatim>\<open>Rect\<close> (rect.hpp), \<^verbatim>\<open>utils::Matrix\<close>
  (matrix.hpp) and the three throwing helpers (thrower.cpp).

  Conventions of the embedding.
  \<^item> A value of the coordinate type \<^verbatim>\<open>T\<close> is the \<^typ>\<open>real\<close> number it denotes. The
    functions named as in the source compute in exact arithmetic: they round nothing.
    The proximity query around one body is embedded a second time, in the
    floating-point arithmetic of the source (the functions with the suffix \<open>_fp\<close>,
    which round every operation as \<^verbatim>\<open>float\<close> and \<^verbatim>\<open>double\<close> do). Division by zero,
    which the C++ standard leaves undefined, is an explicit outcome.
  \<^item> A body is known by its address. \<^verbatim>\<open>const Body &\<close> and \<^verbatim>\<open>std::shared_ptr<Body>\<close>
    are both that address (\<^verbatim>\<open>ptr.get() == &body\<close> is equality of addresses); a null
    handle cannot be stored, since \<^verbatim>\<open>addBody\<close> dereferences the handle first. The
    position a body reports, \<^verbatim>\<open>PositionGetter()(body)\<close>, is a function \<open>pos\<close> from
    addresses to vectors that every operation reading positions takes as an argument:
    positions change outside the grid.
  \<^item> A \<^verbatim>\<open>cell_t &\<close> is the index of the cell in the buffer of the matrix.
  \<^item> \<^verbatim>\<open>NDEBUG\<close> is the argument \<open>bld\<close>: \<open>Validated\<close> when it is not defined,
    \<open>Performance\<close> when it is.
  \<^item> Every operation that can throw or run into undefined behaviour returns
    \<open>error + 'a\<close>. \<open>Undefined\<close> is not an exception: it marks an execution the C++
    standard says nothing about.
  \<^item> \<^verbatim>\<open>std::size_t\<close> is 64 bits wide. The counter \<^verbatim>\<open>num_bodies\<close>, on which the source
    subtracts, is a 64-bit word; dimensions, indices and list lengths are natural
    numbers (they are bounded by what is allocated). \<^verbatim>\<open>int\<close> is \<^typ>\<open>int\<close> in
    \<open>translate_cell\<close>, and 32 bits wide in \<open>translate_cell_int\<close>.
\<close>

subsection \<open>Errors (thrower.cpp)\<close>

datatype error = RuntimeError | InvalidArgument | OutOfRange | Undefined

datatype build = Validated | Performance

definition throwInvalidArgument :: "error + 'a" where
  "throwInvalidArgument = Inl InvalidArgument"

definition throwOutOfRange :: "error + 'a" where
  "throwOutOfRange = Inl OutOfRange"

type_synonym size_t = "64 word"

subsection \<open>Vector2 and Rect\<close>

record Vector2 =
  vx :: real
  vy :: real

definition minus_v :: "Vector2 \<Rightarrow> Vector2 \<Rightarrow> Vector2" where
  "minus_v a other = \<lparr>vx = vx a - vx other, vy = vy a - vy other\<rparr>"

text \<open>\<^verbatim>\<open>a / b\<close> on \<^verbatim>\<open>T\<close>; the behaviour is undefined when \<^verbatim>\<open>b\<close> is zero.\<close>

definition fdiv :: "real \<Rightarrow> real \<Rightarrow> error + real" where
  "fdiv a b = (if b = 0 then Inl Undefined else Inr (a / b))"

definition cwiseDiv :: "build \<Rightarrow> Vector2 \<Rightarrow> Vector2 \<Rightarrow> error + Vector2" where
  "cwiseDiv bld a other =
     (if bld = Validated \<and> (vx other = 0 \<or> vy other = 0) then throwInvalidArgument
      else case fdiv (vx a) (vx other) of Inl e \<Rightarrow> Inl e | Inr qx \<Rightarrow>
           (case fdiv (vy a) (vy other) of Inl e \<Rightarrow> Inl e | Inr qy \<Rightarrow>
              Inr \<lparr>vx = qx, vy = qy\<rparr>))"

definition distance :: "Vector2 \<Rightarrow> Vector2 \<Rightarrow> real" where
  "distance a other = sqrt ((vx other - vx a)\<^sup>2 + (vy other - vy a)\<^sup>2)"

definition distance2 :: "Vector2 \<Rightarrow> Vector2 \<Rightarrow> real" where
  "distance2 a other = (vx other - vx a) ^ 2 + (vy other - vy a) ^ 2"

record Rect =
  position :: Vector2
  size_r :: Vector2

definition contains :: "Rect \<Rightarrow> Vector2 \<Rightarrow> bool" where
  "contains r point =
     (vx (position r) \<le> vx point \<and> vx point \<le> vx (position r) + vx (size_r r)
      \<and> vy (position r) \<le> vy point \<and> vy point \<le> vy (position r) + vy (size_r r))"

text \<open>The constructor \<^verbatim>\<open>Rect(left, top, right, bottom)\<close>; it checks nothing.\<close>

definition Rect_ltrb :: "real \<Rightarrow> real \<Rightarrow> real \<Rightarrow> real \<Rightarrow> Rect" where
  "Rect_ltrb l t r b =
     \<lparr>position = \<lparr>vx = l, vy = t\<rparr>, size_r = \<lparr>vx = r - l, vy = b - t\<rparr>\<rparr>"

subsection \<open>Matrix\<close>

record 'a Matrix =
  data :: "'a list"
  m_rows :: nat
  m_columns :: nat

text \<open>\<^verbatim>\<open>new T[rows * columns]\<close> default-constructs every element.\<close>

definition Matrix_new :: "'a \<Rightarrow> nat \<Rightarrow> nat \<Rightarrow> 'a Matrix" where
  "Matrix_new dflt r c = \<lparr>data = replicate (r * c) dflt, m_rows = r, m_columns = c\<rparr>"

text \<open>
  \<^verbatim>\<open>operator()(row, column)\<close>: the unchecked access \<^verbatim>\<open>data[row * columns + column]\<close>.
  The result is the reference, that is the index into the buffer; an index outside the
  buffer is undefined behaviour.
\<close>

definition Matrix_call :: "'a Matrix \<Rightarrow> nat \<Rightarrow> nat \<Rightarrow> error + nat" where
  "Matrix_call m row column =
     (let i = row * m_columns m + column
      in if i < length (data m) then Inr i else Inl Undefined)"

subsection \<open>Grid\<close>

type_synonym body_ptr_t = nat
type_synonym cell_t = "body_ptr_t list"

record Grid =
  cells :: "cell_t Matrix"
  num_bodies :: size_t
  bound :: Rect
  rows :: nat
  columns :: nat

definition Grid_new :: "build \<Rightarrow> Rect \<Rightarrow> nat \<Rightarrow> nat \<Rightarrow> error + Grid" where
  "Grid_new bld bnd r c =
     (let g = \<lparr>cells = Matrix_new [] r c, num_bodies = 0, bound = bnd, rows = r, columns = c\<rparr>
      in if bld = Validated \<and> (r = 0 \<or> c = 0) then throwInvalidArgument else Inr g)"

definition cellSize :: "build \<Rightarrow> Grid \<Rightarrow> error + Vector2" where
  "cellSize bld g =
     cwiseDiv bld (size_r (bound g)) \<lparr>vx = real (columns g), vy = real (rows g)\<rparr>"

text \<open>
  \<^verbatim>\<open>static_cast<std::size_t>(v)\<close> on a floating-point value truncates towards zero; the
  behaviour is undefined when the truncated value is not a value of \<^verbatim>\<open>std::size_t\<close>.
\<close>

definition static_cast_size_t :: "real \<Rightarrow> error + nat" where
  "static_cast_size_t v =
     (let t = (if 0 \<le> v then \<lfloor>v\<rfloor> else \<lceil>v\<rceil>)
      in if t < 0 \<or> 2 ^ 64 \<le> t then Inl Undefined else Inr (nat t))"

definition getCellIndex ::
  "build \<Rightarrow> (body_ptr_t \<Rightarrow> Vector2) \<Rightarrow> Grid \<Rightarrow> body_ptr_t \<Rightarrow> error + (nat \<times> nat)" where
  "getCellIndex bld pos g body =
     (let relative_position = minus_v (pos body) (position (bound g))
      in case cellSize bld g of Inl e \<Rightarrow> Inl e | Inr cell_size \<Rightarrow>
         (case fdiv (vy relative_position) (vy cell_size) of Inl e \<Rightarrow> Inl e | Inr qy \<Rightarrow>
         (case static_cast_size_t qy of Inl e \<Rightarrow> Inl e | Inr row \<Rightarrow>
         (case fdiv (vx relative_position) (vx cell_size) of Inl e \<Rightarrow> Inl e | Inr qx \<Rightarrow>
         (case static_cast_size_t qx of Inl e \<Rightarrow> Inl e | Inr col \<Rightarrow>
            if bld = Validated \<and> (row \<ge> rows g \<or> col \<ge> columns g) then throwOutOfRange
            else Inr (row, col))))))"


definition getBodyCell ::
  "build \<Rightarrow> (body_ptr_t \<Rightarrow> Vector2) \<Rightarrow> Grid \<Rightarrow> body_ptr_t \<Rightarrow> error + nat" where
  "getBodyCell bld pos g body =
     (case getCellIndex bld pos g body of Inl e \<Rightarrow> Inl e
      | Inr (row, col) \<Rightarrow> Matrix_call (cells g) row col)"

definition getBodyCount :: "Grid \<Rightarrow> size_t" where
  "getBodyCount g = num_bodies g"

text \<open>The contents of the cell a reference points to, and the grid with that cell replaced.\<close>

definition cell_of :: "Grid \<Rightarrow> nat \<Rightarrow> cell_t" where
  "cell_of g c = data (cells g) ! c"

definition set_cell :: "Grid \<Rightarrow> nat \<Rightarrow> cell_t \<Rightarrow> Grid" where
  "set_cell g c v = g\<lparr>cells := (cells g)\<lparr>data := (data (cells g))[c := v]\<rparr>\<rparr>"

definition addBody ::
  "build \<Rightarrow> (body_ptr_t \<Rightarrow> Vector2) \<Rightarrow> Grid \<Rightarrow> body_ptr_t \<Rightarrow> error + (Grid \<times> nat)" where
  "addBody bld pos g body =
     (case getBodyCell bld pos g body of Inl e \<Rightarrow> Inl e
      | Inr cell \<Rightarrow>
          Inr ((set_cell g cell (cell_of g cell @ [body]))\<lparr>num_bodies := num_bodies g + 1\<rparr>,
               cell))"

text \<open>
  \<^verbatim>\<open>removeBody\<close> reads and writes through the reference it is given; a reference that
  is not a cell of the grid's buffer is outside the model.
\<close>

definition removeBody :: "Grid \<Rightarrow> body_ptr_t \<Rightarrow> nat \<Rightarrow> error + (Grid \<times> nat)" where
  "removeBody g body body_cell =
     (if body_cell < length (data (cells g)) then
        let kept = filter (\<lambda>ptr. \<not> (ptr = body)) (cell_of g body_cell);
            removed_count = length (cell_of g body_cell) - length kept
        in Inr ((set_cell g body_cell kept)
                  \<lparr>num_bodies := num_bodies g - of_nat removed_count\<rparr>, removed_count)
      else Inl Undefined)"

text \<open>A \<^verbatim>\<open>for\<close> loop over the values of a list whose body can fail.\<close>

fun for_each :: "'i list \<Rightarrow> ('i \<Rightarrow> 's \<Rightarrow> error + 's) \<Rightarrow> 's \<Rightarrow> error + 's" where
  "for_each [] body s = Inr s"
| "for_each (i # is) body s =
     (case body i s of Inl e \<Rightarrow> Inl e | Inr s' \<Rightarrow> for_each is body s')"

definition clear_cell :: "nat \<Rightarrow> nat \<Rightarrow> cell_t Matrix \<Rightarrow> error + cell_t Matrix" where
  "clear_cell i j m =
     (case Matrix_call m i j of Inl e \<Rightarrow> Inl e
      | Inr c \<Rightarrow> Inr (m\<lparr>data := (data m)[c := []]\<rparr>))"

definition clearAllBodies :: "Grid \<Rightarrow> error + Grid" where
  "clearAllBodies g =
     (case for_each [0..<rows g]
             (\<lambda>i. for_each [0..<columns g] (\<lambda>j. clear_cell i j)) (cells g) of
        Inl e \<Rightarrow> Inl e
      | Inr m \<Rightarrow> Inr (g\<lparr>cells := m, num_bodies := 0\<rparr>))"

text \<open>\<^verbatim>\<open>std::find_if\<close>: the position of the first element satisfying the predicate.\<close>

fun find_if :: "('a \<Rightarrow> bool) \<Rightarrow> 'a list \<Rightarrow> nat option" where
  "find_if p [] = None"
| "find_if p (x # xs) = (if p x then Some 0 else map_option Suc (find_if p xs))"

text \<open>
  \<^verbatim>\<open>new_cell.splice(new_cell.end(), previous_cell, ptr)\<close> moves the element at position
  \<open>k\<close> of the previous cell to the end of the new cell.
\<close>

definition splice_cell :: "Grid \<Rightarrow> nat \<Rightarrow> nat \<Rightarrow> nat \<Rightarrow> Grid" where
  "splice_cell g new_cell previous_cell k =
     (let prev = cell_of g previous_cell;
          g1 = set_cell g previous_cell (take k prev @ drop (Suc k) prev)
      in set_cell g1 new_cell (cell_of g1 new_cell @ [prev ! k]))"

definition updateBodyCell ::
  "build \<Rightarrow> (body_ptr_t \<Rightarrow> Vector2) \<Rightarrow> Grid \<Rightarrow> body_ptr_t \<Rightarrow> nat \<Rightarrow> error + (Grid \<times> nat)" where
  "updateBodyCell bld pos g body previous_cell =
     (case getCellIndex bld pos g body of Inl e \<Rightarrow> Inl e
      | Inr (row, col) \<Rightarrow>
     (case Matrix_call (cells g) row col of Inl e \<Rightarrow> Inl e
      | Inr new_cell \<Rightarrow>
          if new_cell = previous_cell then Inr (g, new_cell)
          else if \<not> previous_cell < length (data (cells g)) then Inl Undefined
          else (case find_if (\<lambda>ptr. ptr = body) (cell_of g previous_cell) of
                  None \<Rightarrow> if bld = Validated then throwOutOfRange else Inl Undefined
                | Some k \<Rightarrow> Inr (splice_cell g new_cell previous_cell k, new_cell))))"

subsection \<open>Proximity queries\<close>

text \<open>The check both queries start with; it is compiled in only when \<^verbatim>\<open>NDEBUG\<close> is not defined.\<close>

definition check_distance :: "build \<Rightarrow> Grid \<Rightarrow> real \<Rightarrow> error + unit" where
  "check_distance bld g dst =
     (if bld = Validated then
        (case cellSize bld g of Inl e \<Rightarrow> Inl e
         | Inr cell_size \<Rightarrow>
             if dst > min (vx cell_size) (vy cell_size) then throwInvalidArgument
             else Inr ())
      else Inr ())"

definition adjacent_offsets :: "(int \<times> int) list" where
  "adjacent_offsets =
     [(-1, -1), (-1, 0), (-1, 1),
      (0, -1),           (0, 1),
      (1, -1),  (1, 0),  (1, 1)]"

definition translate_cell :: "nat \<times> nat \<Rightarrow> int \<times> int \<Rightarrow> int \<times> int" where
  "translate_cell body_cell_index xy =
     (case body_cell_index of (center_row, center_column) \<Rightarrow>
      case xy of (dx, dy) \<Rightarrow> (int center_row + dy, int center_column + dx))"

definition is_cell_within_bound :: "Grid \<Rightarrow> int \<times> int \<Rightarrow> bool" where
  "is_cell_within_bound g cell_index =
     (case cell_index of (row, column) \<Rightarrow>
        row \<ge> 0 \<and> row < int (rows g) \<and> column \<ge> 0 \<and> column < int (columns g))"

definition queryDistance ::
  "build \<Rightarrow> (body_ptr_t \<Rightarrow> Vector2) \<Rightarrow> Grid \<Rightarrow> body_ptr_t \<Rightarrow> nat \<times> nat \<Rightarrow> real
     \<Rightarrow> error + body_ptr_t list" where
  "queryDistance bld pos g body body_cell_index dst =
     (case check_distance bld g dst of Inl e \<Rightarrow> Inl e
      | Inr _ \<Rightarrow>
     (let body_position = pos body;
          distance_square = dst ^ 2;
          is_nearby = (\<lambda>other. distance2 (pos other) body_position \<le> distance_square)
      in case Matrix_call (cells g) (fst body_cell_index) (snd body_cell_index) of
           Inl e \<Rightarrow> Inl e
         | Inr c \<Rightarrow>
             for_each
               (filter (is_cell_within_bound g)
                  (map (translate_cell body_cell_index) adjacent_offsets))
               (\<lambda>cell_index result.
                  case Matrix_call (cells g) (nat (fst cell_index)) (nat (snd cell_index)) of
                    Inl e \<Rightarrow> Inl e
                  | Inr cell \<Rightarrow> Inr (result @ filter is_nearby (cell_of g cell)))
               (filter (\<lambda>ptr. \<not> (ptr = body) \<and> is_nearby ptr) (cell_of g c))))"

subsection \<open>The set of unordered pairs\<close>

text \<open>
  \<^verbatim>\<open>std::hash<std::shared_ptr<Body>>\<close> is a parameter \<open>hash_ptr\<close>: the standard fixes only
  that it is a function of the stored address.
\<close>

definition symmetric_pair_hash ::
  "(body_ptr_t \<Rightarrow> size_t) \<Rightarrow> body_ptr_t \<times> body_ptr_t \<Rightarrow> size_t" where
  "symmetric_pair_hash hash_ptr pair = hash_ptr (fst pair) XOR hash_ptr (snd pair)"

definition symmetric_pair_equal ::
  "body_ptr_t \<times> body_ptr_t \<Rightarrow> body_ptr_t \<times> body_ptr_t \<Rightarrow> bool" where
  "symmetric_pair_equal pair1 pair2 =
     ((fst pair1 = fst pair2 \<and> snd pair1 = snd pair2)
      \<or> (fst pair1 = snd pair2 \<and> snd pair1 = fst pair2))"

text \<open>
  The \<^verbatim>\<open>std::unordered_set\<close> of pairs is the list of its elements in the order they
  were inserted. \<^verbatim>\<open>emplace\<close> looks for an equal element in the bucket of the new
  element only, and inserts when it finds none. Which bucket a hash value falls
  into is a parameter \<open>bucket\<close>; it may depend on the number of elements, since the
  table is rehashed as it grows.
\<close>

type_synonym pair_set = "(body_ptr_t \<times> body_ptr_t) list"

definition emplace ::
  "(body_ptr_t \<Rightarrow> size_t) \<Rightarrow> (nat \<Rightarrow> size_t \<Rightarrow> nat) \<Rightarrow> body_ptr_t \<times> body_ptr_t
     \<Rightarrow> pair_set \<Rightarrow> pair_set" where
  "emplace hash_ptr bucket pair s =
     (if list_ex (\<lambda>q. bucket (length s) (symmetric_pair_hash hash_ptr q)
                        = bucket (length s) (symmetric_pair_hash hash_ptr pair)
                      \<and> symmetric_pair_equal q pair) s
      then s else s @ [pair])"

text \<open>The two inner loops of \<^verbatim>\<open>queryDistancePair\<close> over the bodies of four cells.\<close>

definition check_pairs ::
  "(body_ptr_t \<Rightarrow> size_t) \<Rightarrow> (nat \<Rightarrow> size_t \<Rightarrow> nat) \<Rightarrow> (body_ptr_t \<Rightarrow> body_ptr_t \<Rightarrow> bool)
     \<Rightarrow> body_ptr_t list \<Rightarrow> pair_set \<Rightarrow> pair_set" where
  "check_pairs hash_ptr bucket is_nearby check_bodies result =
     fold (\<lambda>i. fold (\<lambda>j r. if is_nearby (check_bodies ! i) (check_bodies ! j)
                            then emplace hash_ptr bucket (check_bodies ! i, check_bodies ! j) r
                            else r)
                     [i + 1..<length check_bodies])
          [0..<length check_bodies] result"

text \<open>The body of the loop over the sweep positions \<open>(row, col)\<close>.\<close>

definition sweep_step ::
  "(body_ptr_t \<Rightarrow> size_t) \<Rightarrow> (nat \<Rightarrow> size_t \<Rightarrow> nat) \<Rightarrow> (body_ptr_t \<Rightarrow> body_ptr_t \<Rightarrow> bool)
     \<Rightarrow> Grid \<Rightarrow> nat \<Rightarrow> nat \<Rightarrow> pair_set \<Rightarrow> error + pair_set" where
  "sweep_step hash_ptr bucket is_nearby g row col result =
     (case Matrix_call (cells g) row col of Inl e \<Rightarrow> Inl e | Inr cell_current \<Rightarrow>
     (case Matrix_call (cells g) row (col - 1) of Inl e \<Rightarrow> Inl e | Inr cell_left \<Rightarrow>
     (case Matrix_call (cells g) (row - 1) col of Inl e \<Rightarrow> Inl e | Inr cell_top \<Rightarrow>
     (case Matrix_call (cells g) (row - 1) (col - 1) of Inl e \<Rightarrow> Inl e | Inr cell_top_left \<Rightarrow>
        (let reserve_size = length (cell_of g cell_current) + length (cell_of g cell_left)
                            + length (cell_of g cell_top) + length (cell_of g cell_top_left)
         in if reserve_size = 0 then Inr result
            else Inr (check_pairs hash_ptr bucket is_nearby
                        (cell_of g cell_current @ cell_of g cell_left
                         @ cell_of g cell_top @ cell_of g cell_top_left) result))))))"

definition queryDistancePair ::
  "build \<Rightarrow> (body_ptr_t \<Rightarrow> Vector2) \<Rightarrow> (body_ptr_t \<Rightarrow> size_t) \<Rightarrow> (nat \<Rightarrow> size_t \<Rightarrow> nat)
     \<Rightarrow> Grid \<Rightarrow> real \<Rightarrow> error + pair_set" where
  "queryDistancePair bld pos hash_ptr bucket g dst =
     (case check_distance bld g dst of Inl e \<Rightarrow> Inl e
      | Inr _ \<Rightarrow>
     (let is_nearby = (\<lambda>body1 body2. distance2 (pos body1) (pos body2) \<le> dst ^ 2)
      in for_each [1..<rows g]
           (\<lambda>row. for_each [1..<columns g] (sweep_step hash_ptr bucket is_nearby g row))
           []))"

subsection \<open>The arithmetic of the source\<close>

text \<open>
  The functions above compute in exact arithmetic. The functions of this part, which
  carry the suffix \<open>_fp\<close>, compute as the source does when \<^verbatim>\<open>T\<close> is a binary
  floating-point type (the test suite takes \<^verbatim>\<open>float\<close>): every operation rounds its
  exact result once, to the nearest value of the format of its type, ties to even
  (IEEE 754 with \<^verbatim>\<open>FLT_EVAL_METHOD\<close> 0).

  A finite value of a format is the real number it denotes; the two zeros are the same
  number, which no comparison, division by a non-zero value or truncation of the source
  tells apart. Positions, the bound and the distance are finite values of \<^verbatim>\<open>T\<close>. An
  infinite result is \<open>None\<close>. NaN does not arise: the only operations on infinite
  values are divisions by finite non-zero values, squares, a sum of two squares and
  comparisons.

  \<open>bit_length n\<close> is the number of binary digits of \<open>n\<close>, and \<open>floor_log2 x\<close> the
  exponent \<open>e\<close> of a positive \<open>x\<close>: \<open>pow2 e \<le> x < pow2 (e + 1)\<close> (lemma
  \<open>floor_log2_bounds\<close>).
\<close>

function bit_length :: "int \<Rightarrow> int" where
  "bit_length n = (if n \<le> 0 then 0 else 1 + bit_length (n div 2))"
  by pat_completeness auto
termination
  by (relation "measure nat") auto

declare bit_length.simps [simp del]

definition floor_log2 :: "real \<Rightarrow> int" where
  "floor_log2 x =
     (if 1 \<le> x then bit_length \<lfloor>x\<rfloor> - 1
      else - bit_length (\<lceil>1 / x\<rceil> - 1))"

definition pow2 :: "int \<Rightarrow> real" where
  "pow2 k = (if 0 \<le> k then 2 ^ nat k else 1 / 2 ^ nat (- k))"

definition round_half_even :: "real \<Rightarrow> int" where
  "round_half_even y =
     (let f = \<lfloor>y\<rfloor>; r = y - of_int f
      in if r < 1 / 2 then f else if 1 / 2 < r then f + 1
         else if even f then f else f + 1)"

text \<open>
  A binary format: the number of digits of the significand and the least and greatest
  exponent of a normal value. \<^verbatim>\<open>float\<close> is binary32 and \<^verbatim>\<open>double\<close> is binary64.
\<close>

record fformat =
  precision :: nat
  emin :: int
  emax :: int

definition binary32 :: fformat where
  "binary32 = \<lparr>precision = 24, emin = - 126, emax = 127\<rparr>"

definition binary64 :: fformat where
  "binary64 = \<lparr>precision = 53, emin = - 1022, emax = 1023\<rparr>"

text \<open>
  \<open>fround f x\<close> is the value of the format \<open>f\<close> nearest to \<open>x\<close>, ties to even. The
  values of the format around \<open>x\<close> are the multiples of \<open>q\<close>, the unit in the last
  place at the exponent of \<open>x\<close>; below the least normal exponent the spacing stays that
  of the subnormal values. A result beyond the greatest finite value is infinite.
\<close>

definition fround :: "fformat \<Rightarrow> real \<Rightarrow> real option" where
  "fround f x =
     (if x = 0 then Some 0
      else let e = max (emin f) (floor_log2 \<bar>x\<bar>);
               q = pow2 (e - int (precision f) + 1);
               r = of_int (round_half_even (x / q)) * q
           in if r \<noteq> 0 \<and> emax f < floor_log2 \<bar>r\<bar> then None else Some r)"

text \<open>
  An arithmetic gives the three roundings the proximity query goes through:
  \<^item> \<open>round_T\<close>, the rounding of an operation on \<^verbatim>\<open>T\<close> (and of the conversions to \<^verbatim>\<open>T\<close>);
  \<^item> \<open>pow_2\<close>, \<^verbatim>\<open>std::pow(x, 2)\<close> for \<open>x\<close> of type \<^verbatim>\<open>T\<close>, whose result is a
    \<^verbatim>\<open>double\<close>: the square, correctly rounded;
  \<^item> \<open>round_P\<close>, the rounding of an operation on that result type.

  \<open>float_arith\<close> is the arithmetic of \<^verbatim>\<open>Grid<Body, float>\<close>. \<open>exact_arith\<close> rounds
  nothing; with it the functions below are the exact ones (lemmas
  \<open>cellSize_fp_exact\<close>, \<open>getCellIndex_fp_exact\<close>, \<open>is_nearby_fp_exact\<close>).
\<close>

record arith =
  round_T :: "real \<Rightarrow> real option"
  pow_2 :: "real \<Rightarrow> real option"
  round_P :: "real \<Rightarrow> real option"

definition float_arith :: arith where
  "float_arith = \<lparr>round_T = fround binary32,
                   pow_2 = (\<lambda>x. fround binary64 (x * x)),
                   round_P = fround binary64\<rparr>"

definition exact_arith :: arith where
  "exact_arith = \<lparr>round_T = Some, pow_2 = (\<lambda>x. Some (x * x)), round_P = Some\<rparr>"

text \<open>
  \<^verbatim>\<open>static_cast<T>(n)\<close> for \<open>n\<close> of type \<^verbatim>\<open>std::size_t\<close>. A value of \<^verbatim>\<open>std::size_t\<close>
  is below \<open>2 ^ 64\<close> and its conversion to \<^verbatim>\<open>float\<close> or \<^verbatim>\<open>double\<close> is finite; the
  model gives no meaning to an infinite result.
\<close>

definition static_cast_T :: "arith \<Rightarrow> nat \<Rightarrow> error + real" where
  "static_cast_T ar n =
     (case round_T ar (real n) of None \<Rightarrow> Inl Undefined | Some v \<Rightarrow> Inr v)"

text \<open>
  \<^verbatim>\<open>a / b\<close> on \<^verbatim>\<open>T\<close> for a finite \<open>b\<close>; \<open>a\<close> may be infinite, and then so is the
  quotient. As in \<open>fdiv\<close>, a division by zero is undefined.
\<close>

definition div_T :: "arith \<Rightarrow> real option \<Rightarrow> real \<Rightarrow> error + real option" where
  "div_T ar a b =
     (if b = 0 then Inl Undefined
      else Inr (case a of None \<Rightarrow> None | Some x \<Rightarrow> round_T ar (x / b)))"

text \<open>
  \<^verbatim>\<open>cwiseDiv\<close> and \<^verbatim>\<open>cellSize\<close>. A quotient of a finite size by a count of cells, which
  is at least one, is finite; the model gives no meaning to an infinite cell size.
\<close>

definition cwiseDiv_fp :: "arith \<Rightarrow> build \<Rightarrow> Vector2 \<Rightarrow> Vector2 \<Rightarrow> error + Vector2" where
  "cwiseDiv_fp ar bld a other =
     (if bld = Validated \<and> (vx other = 0 \<or> vy other = 0) then throwInvalidArgument
      else case div_T ar (Some (vx a)) (vx other) of Inl e \<Rightarrow> Inl e | Inr qx \<Rightarrow>
           (case div_T ar (Some (vy a)) (vy other) of Inl e \<Rightarrow> Inl e | Inr qy \<Rightarrow>
           (case qx of None \<Rightarrow> Inl Undefined | Some cx \<Rightarrow>
           (case qy of None \<Rightarrow> Inl Undefined | Some cy \<Rightarrow> Inr \<lparr>vx = cx, vy = cy\<rparr>))))"

definition cellSize_fp :: "arith \<Rightarrow> build \<Rightarrow> Grid \<Rightarrow> error + Vector2" where
  "cellSize_fp ar bld g =
     (case static_cast_T ar (columns g) of Inl e \<Rightarrow> Inl e | Inr c \<Rightarrow>
     (case static_cast_T ar (rows g) of Inl e \<Rightarrow> Inl e | Inr r \<Rightarrow>
        cwiseDiv_fp ar bld (size_r (bound g)) \<lparr>vx = c, vy = r\<rparr>))"

text \<open>\<^verbatim>\<open>static_cast<std::size_t>\<close> of a value of \<^verbatim>\<open>T\<close>; an infinite value does not fit.\<close>

definition static_cast_size_t_fp :: "real option \<Rightarrow> error + nat" where
  "static_cast_size_t_fp v =
     (case v of None \<Rightarrow> Inl Undefined | Some x \<Rightarrow> static_cast_size_t x)"

text \<open>
  \<^verbatim>\<open>getCellIndex\<close>: the subtraction \<^verbatim>\<open>PositionGetter()(body) - bound.position\<close> rounds
  each component, and so does each of the two divisions by the cell size.
\<close>

definition getCellIndex_fp ::
  "arith \<Rightarrow> build \<Rightarrow> (body_ptr_t \<Rightarrow> Vector2) \<Rightarrow> Grid \<Rightarrow> body_ptr_t \<Rightarrow> error + (nat \<times> nat)" where
  "getCellIndex_fp ar bld pos g body =
     (let relative_x = round_T ar (vx (pos body) - vx (position (bound g)));
          relative_y = round_T ar (vy (pos body) - vy (position (bound g)))
      in case cellSize_fp ar bld g of Inl e \<Rightarrow> Inl e | Inr cell_size \<Rightarrow>
         (case div_T ar relative_y (vy cell_size) of Inl e \<Rightarrow> Inl e | Inr qy \<Rightarrow>
         (case static_cast_size_t_fp qy of Inl e \<Rightarrow> Inl e | Inr row \<Rightarrow>
         (case div_T ar relative_x (vx cell_size) of Inl e \<Rightarrow> Inl e | Inr qx \<Rightarrow>
         (case static_cast_size_t_fp qx of Inl e \<Rightarrow> Inl e | Inr col \<Rightarrow>
            if bld = Validated \<and> (row \<ge> rows g \<or> col \<ge> columns g) then throwOutOfRange
            else Inr (row, col))))))"

text \<open>
  \<^verbatim>\<open>distance2\<close> returns \<^verbatim>\<open>std::pow(other.x - x, 2) + std::pow(other.y - y, 2)\<close> as
  a \<^verbatim>\<open>T\<close>: the differences are rounded in \<^verbatim>\<open>T\<close>, the squares and their sum in the
  result type of \<^verbatim>\<open>std::pow\<close>, and the return narrows the sum to \<^verbatim>\<open>T\<close>.
\<close>

definition distance2_fp :: "arith \<Rightarrow> Vector2 \<Rightarrow> Vector2 \<Rightarrow> real option" where
  "distance2_fp ar a other =
     (case round_T ar (vx other - vx a) of None \<Rightarrow> None | Some dx \<Rightarrow>
     (case pow_2 ar dx of None \<Rightarrow> None | Some px \<Rightarrow>
     (case round_T ar (vy other - vy a) of None \<Rightarrow> None | Some dy \<Rightarrow>
     (case pow_2 ar dy of None \<Rightarrow> None | Some py \<Rightarrow>
     (case round_P ar (px + py) of None \<Rightarrow> None | Some s \<Rightarrow> round_T ar s)))))"

text \<open>
  The test \<^verbatim>\<open>is_nearby\<close> of \<^verbatim>\<open>queryDistance\<close>: the narrowed \<^verbatim>\<open>distance2\<close> against
  \<^verbatim>\<open>distance_square = std::pow(distance, 2)\<close>, which is not narrowed. Everything is at
  most an infinite \<^verbatim>\<open>distance_square\<close>, and an infinite \<^verbatim>\<open>distance2\<close> is at most
  nothing finite.
\<close>

definition is_nearby_fp ::
  "arith \<Rightarrow> (body_ptr_t \<Rightarrow> Vector2) \<Rightarrow> body_ptr_t \<Rightarrow> real \<Rightarrow> body_ptr_t \<Rightarrow> bool" where
  "is_nearby_fp ar pos body dst other =
     (case pow_2 ar dst of None \<Rightarrow> True
      | Some distance_square \<Rightarrow>
          (case distance2_fp ar (pos other) (pos body) of None \<Rightarrow> False
           | Some v \<Rightarrow> v \<le> distance_square))"

definition check_distance_fp :: "arith \<Rightarrow> build \<Rightarrow> Grid \<Rightarrow> real \<Rightarrow> error + unit" where
  "check_distance_fp ar bld g dst =
     (if bld = Validated then
        (case cellSize_fp ar bld g of Inl e \<Rightarrow> Inl e
         | Inr cell_size \<Rightarrow>
             if dst > min (vx cell_size) (vy cell_size) then throwInvalidArgument
             else Inr ())
      else Inr ())"

text \<open>
  \<^verbatim>\<open>translate_cell\<close> computes in \<^verbatim>\<open>int\<close>, which is 32 bits wide:
  \<^verbatim>\<open>static_cast<int>(center_row) + dy\<close>. The conversion of a \<^verbatim>\<open>std::size_t\<close> is
  modular; an overflow of the signed addition is undefined behaviour.
\<close>

definition static_cast_int :: "nat \<Rightarrow> int" where
  "static_cast_int n = sint (word_of_nat n :: 32 word)"

definition add_int :: "int \<Rightarrow> int \<Rightarrow> error + int" where
  "add_int a b = (if - (2 ^ 31) \<le> a + b \<and> a + b < 2 ^ 31 then Inr (a + b) else Inl Undefined)"

definition translate_cell_int :: "nat \<times> nat \<Rightarrow> int \<times> int \<Rightarrow> error + (int \<times> int)" where
  "translate_cell_int body_cell_index xy =
     (case body_cell_index of (center_row, center_column) \<Rightarrow>
      case xy of (dx, dy) \<Rightarrow>
        (case add_int (static_cast_int center_row) dy of Inl e \<Rightarrow> Inl e | Inr row \<Rightarrow>
        (case add_int (static_cast_int center_column) dx of Inl e \<Rightarrow> Inl e | Inr col \<Rightarrow>
           Inr (row, col))))"

text \<open>
  \<^verbatim>\<open>queryDistance\<close> as the source computes it. The pipeline over the adjacent offsets
  (translate, keep the cells within the bound, look the cell up) is lazy: each offset
  goes through the three stages before the next one is taken.
\<close>

definition queryDistance_fp ::
  "arith \<Rightarrow> build \<Rightarrow> (body_ptr_t \<Rightarrow> Vector2) \<Rightarrow> Grid \<Rightarrow> body_ptr_t \<Rightarrow> nat \<times> nat \<Rightarrow> real
     \<Rightarrow> error + body_ptr_t list" where
  "queryDistance_fp ar bld pos g body body_cell_index dst =
     (case check_distance_fp ar bld g dst of Inl e \<Rightarrow> Inl e
      | Inr _ \<Rightarrow>
     (case Matrix_call (cells g) (fst body_cell_index) (snd body_cell_index) of
        Inl e \<Rightarrow> Inl e
      | Inr c \<Rightarrow>
          for_each adjacent_offsets
            (\<lambda>xy result.
               case translate_cell_int body_cell_index xy of Inl e \<Rightarrow> Inl e
               | Inr cell_index \<Rightarrow>
                   if is_cell_within_bound g cell_index then
                     (case Matrix_call (cells g) (nat (fst cell_index)) (nat (snd cell_index)) of
                        Inl e \<Rightarrow> Inl e
                      | Inr cell \<Rightarrow>
                          Inr (result @ filter (is_nearby_fp ar pos body dst) (cell_of g cell)))
                   else Inr result)
            (filter (\<lambda>ptr. \<not> (ptr = body) \<and> is_nearby_fp ar pos body dst ptr) (cell_of g c))))"

subsection \<open>Well-formed grids\<close>

text \<open>What the constructor establishes: the matrix has the dimensions of the grid.\<close>

definition Grid_wf :: "Grid \<Rightarrow> bool" where
  "Grid_wf g =
     (m_rows (cells g) = rows g \<and> m_columns (cells g) = columns g
      \<and> length (data (cells g)) = rows g * columns g)"

text \<open>The handles stored in the grid, and the sum of the sizes of all cells.\<close>

definition grid_bodies :: "Grid \<Rightarrow> body_ptr_t set" where
  "grid_bodies g = set (concat (data (cells g)))"

definition total_size :: "Grid \<Rightarrow> nat" where
  "total_size g = sum_list (map length (data (cells g)))"

text \<open>
  The counter agrees with the cells. Both sides are values of \<^verbatim>\<open>std::size_t\<close>; as long
  as the handles fit in the address space, \<open>total_size g < 2 ^ 64\<close> and the two are
  the same number (lemma \<open>count_inv_unat\<close>).
\<close>

definition count_inv :: "Grid \<Rightarrow> bool" where
  "count_inv g = (getBodyCount g = of_nat (total_size g))"

text \<open>
  Every handle resides in the cell that \<^verbatim>\<open>getCellIndex\<close> computes from the position its
  body reports now.
\<close>

definition all_placed :: "build \<Rightarrow> (body_ptr_t \<Rightarrow> Vector2) \<Rightarrow> Grid \<Rightarrow> bool" where
  "all_placed bld pos g =
     (\<forall>row < rows g. \<forall>col < columns g.
        \<forall>b \<in> set (cell_of g (row * columns g + col)).
          getCellIndex bld pos g b = Inr (row, col))"

text \<open>No two elements of the set are the same unordered pair.\<close>

definition no_duplicate_pairs :: "pair_set \<Rightarrow> bool" where
  "no_duplicate_pairs s =
     (\<forall>i < length s. \<forall>j < length s. i \<noteq> j \<longrightarrow> \<not> symmetric_pair_equal (s ! i) (s ! j))"

text \<open>The set holds the unordered pair \<open>e\<close>, in one order or the other.\<close>

definition covered :: "body_ptr_t \<times> body_ptr_t \<Rightarrow> pair_set \<Rightarrow> bool" where
  "covered e s = list_ex (\<lambda>x. symmetric_pair_equal x e) s"

text \<open>The same, with the cell index computed in the arithmetic \<open>ar\<close>.\<close>

definition all_placed_fp :: "arith \<Rightarrow> build \<Rightarrow> (body_ptr_t \<Rightarrow> Vector2) \<Rightarrow> Grid \<Rightarrow> bool" where
  "all_placed_fp ar bld pos g =
     (\<forall>row < rows g. \<forall>col < columns g.
        \<forall>b \<in> set (cell_of g (row * columns g + col)).
          getCellIndex_fp ar bld pos g b = Inr (row, col))"

text \<open>
  The cells of the grid that are the cell \<open>body_cell_index\<close> or adjacent to it (at most
  nine), and the handles stored in them.
\<close>

definition ring_cells :: "Grid \<Rightarrow> nat \<times> nat \<Rightarrow> (nat \<times> nat) list" where
  "ring_cells g body_cell_index =
     (case body_cell_index of (r, c) \<Rightarrow>
        filter (\<lambda>(row, col). row \<le> r + 1 \<and> r \<le> row + 1 \<and> col \<le> c + 1 \<and> c \<le> col + 1)
          (List.product [0..<rows g] [0..<columns g]))"

definition ring_bodies :: "Grid \<Rightarrow> nat \<times> nat \<Rightarrow> body_ptr_t set" where
  "ring_bodies g body_cell_index =
     (\<Union>(row, col) \<in> set (ring_cells g body_cell_index).
         set (cell_of g (row * columns g + col)))"

subsection \<open>Grids of the test suite\<close>

text \<open>The grid of the test \<^verbatim>\<open>getCellIndex\<close>: 100 by 100 at the origin, 10 rows, 5 columns.\<close>

definition grid_10_5 :: Grid where
  "grid_10_5 = \<lparr>cells = Matrix_new [] 10 5, num_bodies = 0,
                bound = Rect_ltrb 0 0 100 100, rows = 10, columns = 5\<rparr>"

text \<open>
  The grid of the test \<^verbatim>\<open>queryDistance\<close>: 2 by 2 cells over the bound from (0, 0) to
  (2, 2), with four bodies around the centre, one in each cell. The bodies are at the
  addresses 1 to 4.
\<close>

definition pos_centre :: "body_ptr_t \<Rightarrow> Vector2" where
  "pos_centre b =
     (if b = 1 then \<lparr>vx = 0.9, vy = 0.9\<rparr>
      else if b = 2 then \<lparr>vx = 1.1, vy = 0.9\<rparr>
      else if b = 3 then \<lparr>vx = 0.9, vy = 1.1\<rparr>
      else \<lparr>vx = 1.1, vy = 1.1\<rparr>)"

definition grid_2_2 :: Grid where
  "grid_2_2 = \<lparr>cells = \<lparr>data = [[1], [2], [3], [4]], m_rows = 2, m_columns = 2\<rparr>,
               num_bodies = 4, bound = Rect_ltrb 0 0 2 2, rows = 2, columns = 2\<rparr>"

text \<open>A grid of a single cell over the unit square that holds two bodies 0.2 apart.\<close>

definition pos_line :: "body_ptr_t \<Rightarrow> Vector2" where
  "pos_line b = (if b = 1 then \<lparr>vx = 0.4, vy = 0.5\<rparr> else \<lparr>vx = 0.6, vy = 0.5\<rparr>)"

definition grid_1_1 :: Grid where
  "grid_1_1 = \<lparr>cells = \<lparr>data = [[1, 2]], m_rows = 1, m_columns = 1\<rparr>,
               num_bodies = 2, bound = Rect_ltrb 0 0 1 1, rows = 1, columns = 1\<rparr>"

text \<open>A hash of addresses and a table of seven buckets, to run the pair query.\<close>

definition hash_addr :: "body_ptr_t \<Rightarrow> size_t" where
  "hash_addr b = of_nat b"

definition bucket_7 :: "nat \<Rightarrow> size_t \<Rightarrow> nat" where
  "bucket_7 n h = unat h mod 7"

text \<open>
  The values of \<^verbatim>\<open>float\<close> that the literals \<^verbatim>\<open>0.1f\<close>, \<^verbatim>\<open>0.3f\<close>, \<^verbatim>\<open>0.9f\<close> and \<^verbatim>\<open>1.1f\<close>
  denote (lemma \<open>f32_values\<close>), and the bodies of the test \<^verbatim>\<open>queryDistance\<close> at the
  positions the test gives them, \<^verbatim>\<open>0.9f\<close> and \<^verbatim>\<open>1.1f\<close>.
\<close>

definition f32_0_1 :: real where "f32_0_1 = 13421773 / 134217728"

definition f32_0_3 :: real where "f32_0_3 = 5033165 / 16777216"

definition f32_0_9 :: real where "f32_0_9 = 7549747 / 8388608"

definition f32_1_1 :: real where "f32_1_1 = 9227469 / 8388608"




text \<open>
  A grid of 2 rows and 8 columns of unit cells over the bound from (-3, 0) to (5, 2),
  with two bodies less than 1 apart, just left of the lines \<open>x = 1\<close> and \<open>x = 2\<close>:
  in exact arithmetic they are in the columns 3 and 4.
\<close>

definition pos_two_apart :: "body_ptr_t \<Rightarrow> Vector2" where
  "pos_two_apart b = (if b = 1 then \<lparr>vx = 1 - 3 / 2 ^ 24, vy = 1 / 2\<rparr>
                      else \<lparr>vx = 2 - 1 / 2 ^ 22, vy = 1 / 2\<rparr>)"

definition grid_two_apart :: Grid where
  "grid_two_apart =
     \<lparr>cells = \<lparr>data = [[], [], [], [1], [], [2], [], [], [], [], [], [], [], [], [], []],
                 m_rows = 2, m_columns = 8\<rparr>,
       num_bodies = 2, bound = Rect_ltrb (- 3) 0 5 2, rows = 2, columns = 8\<rparr>"

section \<open>Loops and references\<close>

lemma for_each_error:
  "for_each xs body s = Inl e \<Longrightarrow> \<exists>i \<in> set xs. \<exists>s'. body i s' = Inl e"
  by (induction xs arbitrary: s) (auto split: sum.splits)

lemma for_each_invariant:
  assumes "for_each xs body s = Inr s'" and "P s"
    and "\<And>i t t'. i \<in> set xs \<Longrightarrow> P t \<Longrightarrow> body i t = Inr t' \<Longrightarrow> P t'"
  shows "P s'"
  using assms
proof (induction xs arbitrary: s)
  case Nil
  then show ?case by simp
next
  case (Cons a xs)
  from Cons.prems(1) obtain t where t: "body a s = Inr t" "for_each xs body t = Inr s'"
    by (auto split: sum.splits)
  have "P t"
    using Cons.prems(3) [of a s t] Cons.prems(2) t(1) by simp
  show ?case
  proof (rule Cons.IH [OF t(2) \<open>P t\<close>])
    fix i u u'
    assume "i \<in> set xs" "P u" "body i u = Inr u'"
    then show "P u'"
      using Cons.prems(3) [of i u u'] by simp
  qed
qed

lemma Matrix_call_error: "Matrix_call m r c = Inl e \<Longrightarrow> e = Undefined"
  by (auto simp: Matrix_call_def Let_def split: if_splits)

lemma Matrix_call_Inr: "Matrix_call m r c = Inr i \<Longrightarrow> i < length (data m)"
  by (auto simp: Matrix_call_def Let_def split: if_splits)

lemma filter_eq_absent: "b \<notin> set xs \<Longrightarrow> filter (\<lambda>p. p = b) xs = []"
  by (induction xs) auto

lemma filter_neq_absent: "b \<notin> set xs \<Longrightarrow> filter (\<lambda>p. \<not> (p = b)) xs = xs"
  by (induction xs) auto

lemma length_filter_split:
  "length xs - length (filter (\<lambda>p. \<not> (p = b)) xs) = length (filter (\<lambda>p. p = b) xs)"
  using sum_length_filter_compl [of "\<lambda>p. p = b" xs] by simp

lemma total_size_set_cell:
  "c < length (data (cells g)) \<Longrightarrow>
   total_size (set_cell g c v) + length (cell_of g c) = total_size g + length v"
proof -
  assume c: "c < length (data (cells g))"
  let ?xs = "data (cells g)"
  have "sum_list (map length (?xs[c := v])) + length (?xs ! c)
        = sum_list (map length (take c ?xs @ ?xs ! c # drop (Suc c) ?xs)) + length v"
    using c by (simp add: upd_conv_take_nth_drop)
  also have "take c ?xs @ ?xs ! c # drop (Suc c) ?xs = ?xs"
    using c by (simp add: id_take_nth_drop [symmetric])
  finally show ?thesis
    by (simp add: total_size_def set_cell_def cell_of_def)
qed

lemma set_cell_length [simp]:
  "length (data (cells (set_cell g c v))) = length (data (cells g))"
  by (simp add: set_cell_def)

lemma total_size_num_bodies [simp]: "total_size (g\<lparr>num_bodies := n\<rparr>) = total_size g"
  by (simp add: total_size_def)

lemma Grid_wf_set_cell [simp]: "Grid_wf (set_cell g c v) = Grid_wf g"
  by (simp add: Grid_wf_def set_cell_def)

lemma Grid_wf_num_bodies [simp]: "Grid_wf (g\<lparr>num_bodies := n\<rparr>) = Grid_wf g"
  by (simp add: Grid_wf_def)

lemma fold_invariant:
  assumes "P s" and "\<And>x t. x \<in> set xs \<Longrightarrow> P t \<Longrightarrow> P (f x t)"
  shows "P (fold f xs s)"
  using assms by (induction xs arbitrary: s) simp_all

lemma for_each_skip: "for_each xs (\<lambda>i s. Inr s) s = Inr s"
  by (induction xs) simp_all

lemma find_if_Some:
  "find_if p xs = Some k \<Longrightarrow> k < length xs \<and> p (xs ! k) \<and> (\<forall>i < k. \<not> p (xs ! i))"
proof (induction xs arbitrary: k)
  case Nil
  then show ?case by simp
next
  case (Cons x xs)
  show ?case
  proof (cases "p x")
    case True
    with Cons.prems show ?thesis by simp
  next
    case False
    with Cons.prems obtain k' where k': "find_if p xs = Some k'" "k = Suc k'"
      by auto
    from Cons.IH [OF k'(1)] False k'(2) show ?thesis
      by (auto simp: less_Suc_eq_0_disj)
  qed
qed

lemma find_if_None: "find_if p xs = None \<longleftrightarrow> (\<forall>x \<in> set xs. \<not> p x)"
  by (induction xs) auto

lemma index_split: "0 < C \<Longrightarrow> k < R * C \<Longrightarrow> \<exists>i < R. \<exists>j < C. k = i * C + (j::nat)"
proof -
  assume C: "0 < C" and k: "k < R * C"
  have "k div C < R" using k C by (simp add: less_mult_imp_div_less)
  moreover have "k mod C < C" using C by simp
  moreover have "k = (k div C) * C + k mod C" by simp
  ultimately show ?thesis by blast
qed

lemma index_bound: "i < R \<Longrightarrow> j < C \<Longrightarrow> i * C + j < R * (C::nat)"
proof -
  assume i: "i < R" and j: "j < C"
  have "i * C + j < i * C + C" using j by simp
  also have "\<dots> = Suc i * C" by simp
  also have "\<dots> \<le> R * C" using i by (intro mult_le_mono1) simp
  finally show ?thesis .
qed

lemmas fixture_defs =
  grid_2_2_def grid_1_1_def pos_centre_def pos_line_def Rect_ltrb_def hash_addr_def
  bucket_7_def

section \<open>Cell addressing\<close>

lemmas getCellIndex_defs =
  getCellIndex_def cellSize_def cwiseDiv_def fdiv_def static_cast_size_t_def
  minus_v_def throwOutOfRange_def throwInvalidArgument_def

lemma Grid_new_10_5: "Grid_new bld (Rect_ltrb 0 0 100 100) 10 5 = Inr grid_10_5"
  by (simp add: Grid_new_def grid_10_5_def)

text \<open>
  C9. The grid over the 100 by 100 bound at the origin with 10 rows and 5 columns maps
  a body at (14.4, 20.8) to the cell in row 2 and column 0, and in the validated build
  \<^verbatim>\<open>getCellIndex\<close> fails with out-of-range for a body at the far corner (100, 100).
\<close>

theorem getCellIndex_scenario:
  "Grid_new Validated (Rect_ltrb 0 0 100 100) 10 5 = Inr grid_10_5
   \<and> getCellIndex bld (\<lambda>_. \<lparr>vx = 14.4, vy = 20.8\<rparr>) grid_10_5 b = Inr (2, 0)
   \<and> getCellIndex Validated (\<lambda>_. \<lparr>vx = 100, vy = 100\<rparr>) grid_10_5 b = Inl OutOfRange"
  by (simp add: Grid_new_def getCellIndex_defs grid_10_5_def Rect_ltrb_def)

text \<open>
  C3, evaluated where it fails. A body at (-0.5, 5) lies outside the bound of that grid,
  to the left of it, and the validated build maps it to the cell in row 0 and column 0
  without failing: the conversion to \<^verbatim>\<open>std::size_t\<close> truncates -0.025 to 0.
\<close>

theorem getCellIndex_outside_left:
  "\<not> contains (bound grid_10_5) \<lparr>vx = -0.5, vy = 5\<rparr>
   \<and> getCellIndex Validated (\<lambda>_. \<lparr>vx = -0.5, vy = 5\<rparr>) grid_10_5 b = Inr (0, 0)"
  by (simp add: getCellIndex_defs grid_10_5_def Rect_ltrb_def contains_def)

section \<open>Mutation\<close>

lemma updateBodyCell_Inr_cases:
  assumes "updateBodyCell bld pos g b previous_cell = Inr (g', c)"
  obtains (same) row col where "getCellIndex bld pos g b = Inr (row, col)"
      "Matrix_call (cells g) row col = Inr previous_cell" "g' = g" "c = previous_cell"
  | (moved) row col k where "getCellIndex bld pos g b = Inr (row, col)"
      "Matrix_call (cells g) row col = Inr c" "c \<noteq> previous_cell"
      "previous_cell < length (data (cells g))"
      "find_if (\<lambda>ptr. ptr = b) (cell_of g previous_cell) = Some k"
      "g' = splice_cell g c previous_cell k"
proof -
  from assms obtain row col where idx: "getCellIndex bld pos g b = Inr (row, col)"
    by (cases "getCellIndex bld pos g b") (auto simp: updateBodyCell_def)
  with assms obtain nc where nc: "Matrix_call (cells g) row col = Inr nc"
    by (cases "Matrix_call (cells g) row col") (auto simp: updateBodyCell_def)
  show thesis
  proof (cases "nc = previous_cell")
    case True
    with assms idx nc have "g' = g" "c = previous_cell"
      by (simp_all add: updateBodyCell_def)
    with idx nc True show thesis by (auto intro: same)
  next
    case False
    with assms idx nc have pc: "previous_cell < length (data (cells g))"
      by (simp add: updateBodyCell_def split: if_splits)
    with assms idx nc False obtain k
      where k: "find_if (\<lambda>ptr. ptr = b) (cell_of g previous_cell) = Some k"
      by (cases "find_if (\<lambda>ptr. ptr = b) (cell_of g previous_cell)")
         (auto simp: updateBodyCell_def throwOutOfRange_def split: if_splits)
    with assms idx nc False pc have "g' = splice_cell g nc previous_cell k" "c = nc"
      by (auto simp: updateBodyCell_def)
    with idx nc False pc k show thesis by (auto intro: moved)
  qed
qed

text \<open>
  C7. When the position of the body maps to the cell it is already in,
  \<^verbatim>\<open>updateBodyCell\<close> returns the reference it was given and the grid as it was.
\<close>

theorem updateBodyCell_same_cell:
  assumes "getCellIndex bld pos g b = Inr (row, col)"
    and "Matrix_call (cells g) row col = Inr previousCell"
  shows "updateBodyCell bld pos g b previousCell = Inr (g, previousCell)"
  using assms by (simp add: updateBodyCell_def)

theorem updateBodyCell_same_cell_witness:
  "getCellIndex Validated pos_centre grid_2_2 1 = Inr (0, 0)
   \<and> Matrix_call (cells grid_2_2) 0 0 = Inr 0
   \<and> updateBodyCell Validated pos_centre grid_2_2 1 0 = Inr (grid_2_2, 0)"
proof -
  have 1: "getCellIndex Validated pos_centre grid_2_2 1 = Inr (0, 0)"
    by (simp add: getCellIndex_defs fixture_defs)
  have 2: "Matrix_call (cells grid_2_2) 0 0 = Inr 0"
    by (simp add: Matrix_call_def fixture_defs)
  from updateBodyCell_same_cell [OF 1 2] 1 2 show ?thesis by simp
qed

text \<open>
  C6. \<^verbatim>\<open>removeBody\<close> on a cell of the grid never fails. It removes from that cell
  exactly the handles that point to the body, leaves every other cell as it was,
  lowers the counter by the number of handles removed and returns that number; when
  no handle of the cell points to the body it returns 0 and the grid is unchanged.
\<close>

theorem removeBody_spec:
  assumes "c < length (data (cells g))"
  shows "\<exists>g' n. removeBody g b c = Inr (g', n)
      \<and> n = length (filter (\<lambda>ptr. ptr = b) (cell_of g c))
      \<and> cell_of g' c = filter (\<lambda>ptr. ptr \<noteq> b) (cell_of g c)
      \<and> (\<forall>c'. c' \<noteq> c \<longrightarrow> cell_of g' c' = cell_of g c')
      \<and> length (data (cells g')) = length (data (cells g))
      \<and> getBodyCount g' = getBodyCount g - of_nat n
      \<and> (b \<notin> set (cell_of g c) \<longrightarrow> n = 0 \<and> g' = g)"
  using assms
  by (auto simp: removeBody_def Let_def length_filter_split cell_of_def set_cell_def
        getBodyCount_def filter_eq_absent filter_neq_absent)

theorem removeBody_spec_witness:
  "(0::nat) < length (data (cells grid_2_2))
   \<and> (\<exists>g' n. removeBody grid_2_2 1 0 = Inr (g', n)
        \<and> n = length (filter (\<lambda>ptr. ptr = 1) (cell_of grid_2_2 0))
        \<and> cell_of g' 0 = filter (\<lambda>ptr. ptr \<noteq> 1) (cell_of grid_2_2 0)
        \<and> (\<forall>c'. c' \<noteq> 0 \<longrightarrow> cell_of g' c' = cell_of grid_2_2 c')
        \<and> length (data (cells g')) = length (data (cells grid_2_2))
        \<and> getBodyCount g' = getBodyCount grid_2_2 - of_nat n
        \<and> (1 \<notin> set (cell_of grid_2_2 0) \<longrightarrow> n = 0 \<and> g' = grid_2_2))"
proof -
  have 1: "(0::nat) < length (data (cells grid_2_2))"
    by (simp add: fixture_defs)
  from removeBody_spec [OF 1, of 1] 1 show ?thesis by simp
qed

subsection \<open>The counter\<close>

lemma count_inv_unat:
  "count_inv g \<Longrightarrow> total_size g < 2 ^ 64 \<Longrightarrow> unat (getBodyCount g) = total_size g"
  by (simp add: count_inv_def unat_of_nat)

lemma Grid_new_wf:
  assumes "Grid_new bld bnd r c = Inr g"
  shows "Grid_wf g \<and> count_inv g \<and> rows g = r \<and> columns g = c \<and> bound g = bnd
         \<and> grid_bodies g = {}"
  using assms
  by (auto simp: Grid_new_def Grid_wf_def count_inv_def getBodyCount_def total_size_def
        Matrix_new_def throwInvalidArgument_def grid_bodies_def Let_def sum_list_replicate
        split: if_splits)

lemma addBody_Inr:
  assumes "addBody bld pos g b = Inr (g', c)"
  shows "c < length (data (cells g))"
    and "g' = (set_cell g c (cell_of g c @ [b]))\<lparr>num_bodies := num_bodies g + 1\<rparr>"
  using assms
  by (auto simp: addBody_def getBodyCell_def split: sum.splits prod.splits dest: Matrix_call_Inr)

lemma addBody_count:
  assumes "count_inv g" "addBody bld pos g b = Inr (g', c)"
  shows "count_inv g'"
proof -
  note ab = addBody_Inr [OF assms(2)]
  from total_size_set_cell [OF ab(1), of "cell_of g c @ [b]"]
  have "total_size g' = total_size g + 1" by (simp add: ab(2))
  with assms(1) show ?thesis
    by (simp add: count_inv_def getBodyCount_def ab(2))
qed

lemma removeBody_Inr:
  assumes "removeBody g b c = Inr (g', n)"
  shows "c < length (data (cells g))"
    and "n = length (cell_of g c) - length (filter (\<lambda>ptr. \<not> (ptr = b)) (cell_of g c))"
    and "g' = (set_cell g c (filter (\<lambda>ptr. \<not> (ptr = b)) (cell_of g c)))
                \<lparr>num_bodies := num_bodies g - of_nat n\<rparr>"
  using assms by (auto simp: removeBody_def Let_def split: if_splits)

lemma removeBody_count:
  assumes "count_inv g" "removeBody g b c = Inr (g', n)"
  shows "count_inv g'"
proof -
  let ?kept = "filter (\<lambda>ptr. \<not> (ptr = b)) (cell_of g c)"
  note rb = removeBody_Inr [OF assms(2)]
  have le: "length ?kept \<le> length (cell_of g c)" by simp
  from total_size_set_cell [OF rb(1), of ?kept]
  have "total_size g = total_size g' + n" using le by (simp add: rb(2,3))
  with assms(1) show ?thesis
    by (simp add: count_inv_def getBodyCount_def rb(3))
qed

lemma splice_cell_total:
  assumes "new_cell < length (data (cells g))" "previous_cell < length (data (cells g))"
    and "k < length (cell_of g previous_cell)"
  shows "total_size (splice_cell g new_cell previous_cell k) = total_size g"
proof -
  let ?prev = "cell_of g previous_cell"
  let ?g1 = "set_cell g previous_cell (take k ?prev @ drop (Suc k) ?prev)"
  have 1: "total_size ?g1 + 1 = total_size g"
    using total_size_set_cell [OF assms(2), of "take k ?prev @ drop (Suc k) ?prev"] assms(3)
    by simp
  have "new_cell < length (data (cells ?g1))" using assms(1) by simp
  from total_size_set_cell [OF this, of "cell_of ?g1 new_cell @ [?prev ! k]"]
  have "total_size (splice_cell g new_cell previous_cell k) = total_size ?g1 + 1"
    by (simp add: splice_cell_def Let_def)
  with 1 show ?thesis by simp
qed

lemma splice_cell_num_bodies: "num_bodies (splice_cell g n p k) = num_bodies g"
  by (simp add: splice_cell_def Let_def set_cell_def)

lemma splice_cell_wf: "Grid_wf (splice_cell g n p k) = Grid_wf g"
  by (simp add: splice_cell_def Let_def)

lemma updateBodyCell_count:
  assumes "count_inv g" "updateBodyCell bld pos g b previous_cell = Inr (g', c)"
  shows "count_inv g'"
  using assms(2)
proof (cases rule: updateBodyCell_Inr_cases)
  case same
  with assms(1) show ?thesis by simp
next
  case (moved row col k)
  from find_if_Some [OF moved(5)] have "k < length (cell_of g previous_cell)" by simp
  from splice_cell_total [OF Matrix_call_Inr [OF moved(2)] moved(4) this] assms(1)
  show ?thesis
    by (simp add: count_inv_def getBodyCount_def moved(6) splice_cell_num_bodies)
qed

lemma updateBodyCell_wf:
  assumes "Grid_wf g" "updateBodyCell bld pos g b previous_cell = Inr (g', c)"
  shows "Grid_wf g'"
  using assms(2)
proof (cases rule: updateBodyCell_Inr_cases)
  case same
  with assms(1) show ?thesis by simp
next
  case (moved row col k)
  with assms(1) show ?thesis by (simp add: splice_cell_wf)
qed

lemma clear_row:
  assumes "m_columns m = C" "\<forall>j \<in> set js. i * C + j < length (data m)"
  shows "\<exists>m'. for_each js (clear_cell i) m = Inr m'
          \<and> m_columns m' = C \<and> m_rows m' = m_rows m \<and> length (data m') = length (data m)
          \<and> (\<forall>k < length (data m).
                data m' ! k = (if (\<exists>j \<in> set js. k = i * C + j) then [] else data m ! k))"
  using assms
proof (induction js arbitrary: m)
  case Nil
  then show ?case by simp
next
  case (Cons j js)
  let ?m1 = "m\<lparr>data := (data m)[i * C + j := []]\<rparr>"
  have step: "clear_cell i j m = Inr ?m1"
    using Cons.prems by (simp add: clear_cell_def Matrix_call_def)
  have "m_columns ?m1 = C" "\<forall>j \<in> set js. i * C + j < length (data ?m1)"
    using Cons.prems by simp_all
  from Cons.IH [OF this] obtain m' where m': "for_each js (clear_cell i) ?m1 = Inr m'"
    "m_columns m' = C" "m_rows m' = m_rows ?m1" "length (data m') = length (data ?m1)"
    "\<forall>k < length (data ?m1).
        data m' ! k = (if (\<exists>j \<in> set js. k = i * C + j) then [] else data ?m1 ! k)"
    by blast
  have "\<forall>k < length (data m).
          data m' ! k = (if (\<exists>j' \<in> set (j # js). k = i * C + j') then [] else data m ! k)"
    using m'(5) by (auto simp: nth_list_update)
  with step m' show ?case by simp
qed

lemma clear_rows:
  assumes "m_columns m = C" "\<forall>i \<in> set is. \<forall>j < C. i * C + j < length (data m)"
  shows "\<exists>m'. for_each is (\<lambda>i. for_each [0..<C] (clear_cell i)) m = Inr m'
          \<and> m_columns m' = C \<and> m_rows m' = m_rows m \<and> length (data m') = length (data m)
          \<and> (\<forall>k < length (data m).
                data m' ! k = (if \<exists>i \<in> set is. \<exists>j < C. k = i * C + j then [] else data m ! k))"
  using assms
proof (induction "is" arbitrary: m)
  case Nil
  then show ?case by simp
next
  case (Cons i "is")
  have "\<forall>j \<in> set [0..<C]. i * C + j < length (data m)"
    using Cons.prems(2) by simp
  from clear_row [OF Cons.prems(1) this] obtain m1
    where m1: "for_each [0..<C] (clear_cell i) m = Inr m1" "m_columns m1 = C"
      "m_rows m1 = m_rows m" "length (data m1) = length (data m)"
      "\<forall>k < length (data m).
         data m1 ! k = (if (\<exists>j \<in> set [0..<C]. k = i * C + j) then [] else data m ! k)"
    by blast
  have "\<forall>i \<in> set is. \<forall>j < C. i * C + j < length (data m1)"
    using Cons.prems(2) m1(4) by simp
  from Cons.IH [OF m1(2) this] obtain m'
    where m': "for_each is (\<lambda>i. for_each [0..<C] (clear_cell i)) m1 = Inr m'"
      "m_columns m' = C" "m_rows m' = m_rows m1" "length (data m') = length (data m1)"
      "\<forall>k < length (data m1).
         data m' ! k = (if \<exists>i \<in> set is. \<exists>j < C. k = i * C + j then [] else data m1 ! k)"
    by blast
  have "\<forall>k < length (data m).
          data m' ! k = (if \<exists>i' \<in> set (i # is). \<exists>j < C. k = i' * C + j then [] else data m ! k)"
  proof (intro allI impI)
    fix k assume k: "k < length (data m)"
    show "data m' ! k = (if \<exists>i' \<in> set (i # is). \<exists>j < C. k = i' * C + j then [] else data m ! k)"
    proof (cases "\<exists>j < C. k = i * C + j")
      case True
      then have "(\<exists>j \<in> set [0..<C]. k = i * C + j)" by auto
      with m1(5) k have "data m1 ! k = []" by presburger
      moreover from m'(5) m1(4) k have "data m' ! k =
        (if \<exists>i \<in> set is. \<exists>j < C. k = i * C + j then [] else data m1 ! k)" by simp
      ultimately show ?thesis using True by auto
    next
      case False
      then have "\<not> (\<exists>j \<in> set [0..<C]. k = i * C + j)" by auto
      with m1(5) k have "data m1 ! k = data m ! k" by presburger
      moreover from m'(5) m1(4) k have "data m' ! k =
        (if \<exists>i \<in> set is. \<exists>j < C. k = i * C + j then [] else data m1 ! k)" by simp
      ultimately show ?thesis using False by auto
    qed
  qed
  with m1 m' show ?case by simp
qed

lemma clearAllBodies_wf:
  assumes "Grid_wf g"
  shows "\<exists>g'. clearAllBodies g = Inr g' \<and> Grid_wf g' \<and> num_bodies g' = 0
           \<and> data (cells g') = replicate (rows g * columns g) []
           \<and> rows g' = rows g \<and> columns g' = columns g \<and> bound g' = bound g"
proof -
  let ?C = "columns g" and ?R = "rows g"
  from assms have wf: "m_columns (cells g) = ?C" "m_rows (cells g) = ?R"
    "length (data (cells g)) = ?R * ?C"
    by (simp_all add: Grid_wf_def)
  have "\<forall>i \<in> set [0..<?R]. \<forall>j < ?C. i * ?C + j < length (data (cells g))"
    using wf(3) by (simp add: index_bound)
  from clear_rows [OF wf(1) this] obtain m'
    where m': "for_each [0..<?R] (\<lambda>i. for_each [0..<?C] (clear_cell i)) (cells g) = Inr m'"
      "m_columns m' = ?C" "m_rows m' = m_rows (cells g)"
      "length (data m') = length (data (cells g))"
      "\<forall>k < length (data (cells g)).
         data m' ! k = (if \<exists>i \<in> set [0..<?R]. \<exists>j < ?C. k = i * ?C + j then []
                        else data (cells g) ! k)"
    by blast
  have "data m' = replicate (?R * ?C) []"
  proof (rule nth_equalityI)
    show "length (data m') = length (replicate (?R * ?C) ([]::nat list))"
      using m'(4) wf(3) by simp
  next
    fix k assume "k < length (data m')"
    then have k: "k < ?R * ?C" using m'(4) wf(3) by simp
    then have "0 < ?C" by (cases "?C") simp_all
    from index_split [OF this k] have "\<exists>i \<in> set [0..<?R]. \<exists>j < ?C. k = i * ?C + j"
      by auto
    with m'(5) k wf(3) show "data m' ! k = replicate (?R * ?C) [] ! k"
      by simp
  qed
  with m' wf show ?thesis
    by (simp add: clearAllBodies_def Grid_wf_def)
qed

lemma clearAllBodies_count:
  assumes "Grid_wf g" "clearAllBodies g = Inr g'"
  shows "Grid_wf g' \<and> count_inv g'"
  using clearAllBodies_wf [OF assms(1)] assms(2)
  by (auto simp: count_inv_def getBodyCount_def total_size_def sum_list_replicate)

text \<open>
  C4. The counter \<^verbatim>\<open>getBodyCount\<close> returns equals the sum of the sizes of all cells:
  the grid the constructor returns satisfies this, and \<^verbatim>\<open>addBody\<close>, \<^verbatim>\<open>removeBody\<close>,
  \<^verbatim>\<open>updateBodyCell\<close> and \<^verbatim>\<open>clearAllBodies\<close> each take a well-formed grid that
  satisfies it to one that does. (An operation that fails leaves the grid as it was.)
\<close>

theorem num_bodies_invariant:
  "(Grid_new bld bnd r c0 = Inr g0 \<longrightarrow> Grid_wf g0 \<and> count_inv g0)
   \<and> (Grid_wf g \<and> count_inv g \<longrightarrow>
        (addBody bld pos g b = Inr (g1, c1) \<longrightarrow> Grid_wf g1 \<and> count_inv g1)
      \<and> (removeBody g b c = Inr (g2, n) \<longrightarrow> Grid_wf g2 \<and> count_inv g2)
      \<and> (updateBodyCell bld pos g b c = Inr (g3, c3) \<longrightarrow> Grid_wf g3 \<and> count_inv g3)
      \<and> (clearAllBodies g = Inr g4 \<longrightarrow> Grid_wf g4 \<and> count_inv g4))"
proof (intro conjI impI)
  assume "Grid_new bld bnd r c0 = Inr g0"
  from Grid_new_wf [OF this] show "Grid_wf g0" "count_inv g0" by simp_all
next
  assume g: "Grid_wf g \<and> count_inv g" and a: "addBody bld pos g b = Inr (g1, c1)"
  from g show "Grid_wf g1" by (simp add: addBody_Inr(2) [OF a])
  from g a addBody_count show "count_inv g1" by blast
next
  assume g: "Grid_wf g \<and> count_inv g" and a: "removeBody g b c = Inr (g2, n)"
  from g show "Grid_wf g2" by (simp add: removeBody_Inr(3) [OF a])
  from g a removeBody_count show "count_inv g2" by blast
next
  assume g: "Grid_wf g \<and> count_inv g" and a: "updateBodyCell bld pos g b c = Inr (g3, c3)"
  from g a updateBodyCell_wf show "Grid_wf g3" by blast
  from g a updateBodyCell_count show "count_inv g3" by blast
next
  assume g: "Grid_wf g \<and> count_inv g" and a: "clearAllBodies g = Inr g4"
  from g a clearAllBodies_count show "Grid_wf g4" "count_inv g4" by blast+
qed

theorem num_bodies_invariant_witness:
  "(\<exists>g0. Grid_new Validated (Rect_ltrb 0 0 2 2) 2 2 = Inr g0 \<and> Grid_wf g0 \<and> count_inv g0)
   \<and> Grid_wf grid_2_2 \<and> count_inv grid_2_2
   \<and> (\<exists>g1 c1. addBody Validated (pos_centre(1 := \<lparr>vx = 1.5, vy = 1.5\<rparr>)) grid_2_2 1
                  = Inr (g1, c1) \<and> Grid_wf g1 \<and> count_inv g1)
   \<and> (\<exists>g2 n. removeBody grid_2_2 1 0 = Inr (g2, n) \<and> Grid_wf g2 \<and> count_inv g2)
   \<and> (\<exists>g3 c3. updateBodyCell Validated (pos_centre(1 := \<lparr>vx = 1.5, vy = 1.5\<rparr>)) grid_2_2 1 0
                  = Inr (g3, c3) \<and> Grid_wf g3 \<and> count_inv g3)
   \<and> (\<exists>g4. clearAllBodies grid_2_2 = Inr g4 \<and> Grid_wf g4 \<and> count_inv g4)"
proof -
  let ?pos = "pos_centre(1 := \<lparr>vx = 1.5, vy = 1.5\<rparr>)"
  let ?m = "\<lambda>d. \<lparr>data = d, m_rows = 2, m_columns = 2\<rparr>"
  let ?g0 = "\<lparr>cells = Matrix_new [] 2 2, num_bodies = 0, bound = Rect_ltrb 0 0 2 2,
              rows = 2, columns = 2\<rparr>"
  let ?g1 = "grid_2_2\<lparr>cells := ?m [[1], [2], [3], [4, 1]], num_bodies := 5\<rparr>"
  let ?g2 = "grid_2_2\<lparr>cells := ?m [[], [2], [3], [4]], num_bodies := 3\<rparr>"
  let ?g3 = "grid_2_2\<lparr>cells := ?m [[], [2], [3], [4, 1]]\<rparr>"
  let ?g4 = "grid_2_2\<lparr>cells := ?m [[], [], [], []], num_bodies := 0\<rparr>"
  have new: "Grid_new Validated (Rect_ltrb 0 0 2 2) 2 2 = Inr ?g0"
    by (simp add: Grid_new_def)
  have g: "Grid_wf grid_2_2 \<and> count_inv grid_2_2"
    by (simp add: Grid_wf_def count_inv_def getBodyCount_def total_size_def fixture_defs)
  have add: "addBody Validated ?pos grid_2_2 1 = Inr (?g1, 3)"
    by code_simp
  have rem: "removeBody grid_2_2 1 0 = Inr (?g2, 1)"
    by code_simp
  have upd: "updateBodyCell Validated ?pos grid_2_2 1 0 = Inr (?g3, 3)"
    by code_simp
  have clr: "clearAllBodies grid_2_2 = Inr ?g4"
    by code_simp
  note inv = num_bodies_invariant [where bld = Validated and bnd = "Rect_ltrb 0 0 2 2"
      and r = 2 and ?c0.0 = 2 and ?g0.0 = ?g0 and g = grid_2_2 and pos = ?pos and b = 1
      and ?g1.0 = ?g1 and ?c1.0 = 3 and c = 0 and ?g2.0 = ?g2 and n = 1 and ?g3.0 = ?g3
      and ?c3.0 = 3 and ?g4.0 = ?g4]
  from inv new g add rem upd clr show ?thesis by blast
qed

section \<open>Proximity queries\<close>

subsection \<open>The distance check\<close>

lemma cellSize_Inr:
  "0 < rows g \<Longrightarrow> 0 < columns g \<Longrightarrow>
   cellSize bld g = Inr \<lparr>vx = vx (size_r (bound g)) / real (columns g),
                         vy = vy (size_r (bound g)) / real (rows g)\<rparr>"
  by (simp add: cellSize_def cwiseDiv_def fdiv_def)

lemma sweep_step_error: "sweep_step h bk near g r c s = Inl e \<Longrightarrow> e = Undefined"
  by (auto simp: sweep_step_def Let_def split: sum.splits if_splits dest: Matrix_call_error)

lemma check_distance_Validated:
  "cellSize Validated g = Inr cs \<Longrightarrow>
   check_distance Validated g d =
     (if d > min (vx cs) (vy cs) then Inl InvalidArgument else Inr ())"
  by (simp add: check_distance_def throwInvalidArgument_def)

lemma queryDistance_after_check:
  assumes "check_distance bld g d = Inr u"
  shows "queryDistance bld pos g b idx d \<noteq> Inl InvalidArgument"
proof
  assume a: "queryDistance bld pos g b idx d = Inl InvalidArgument"
  from a assms show False
    by (auto simp: queryDistance_def Let_def split: sum.splits
          dest!: for_each_error Matrix_call_error)
qed

lemma queryDistancePair_after_check:
  assumes "check_distance bld g d = Inr u"
  shows "queryDistancePair bld pos h bk g d \<noteq> Inl InvalidArgument"
proof
  assume a: "queryDistancePair bld pos h bk g d = Inl InvalidArgument"
  from a assms show False
    by (auto simp: queryDistancePair_def Let_def split: sum.splits
          dest!: for_each_error sweep_step_error)
qed

text \<open>
  C8. In the validated build, on a grid whose cell size is \<open>cell_size\<close> (so with at
  least one row and one column, as the constructor demands), \<^verbatim>\<open>queryDistance\<close> and
  \<^verbatim>\<open>queryDistancePair\<close> fail with invalid-argument exactly when the distance exceeds
  the smaller of the width and the height of a cell.
\<close>

theorem distance_check:
  assumes "cellSize Validated g = Inr cell_size"
  shows "(queryDistance Validated pos g b idx d = Inl InvalidArgument
            \<longleftrightarrow> d > min (vx cell_size) (vy cell_size))
       \<and> (queryDistancePair Validated pos h bk g d = Inl InvalidArgument
            \<longleftrightarrow> d > min (vx cell_size) (vy cell_size))"
proof (cases "d > min (vx cell_size) (vy cell_size)")
  case True
  with assms show ?thesis
    by (simp add: queryDistance_def queryDistancePair_def check_distance_Validated)
next
  case False
  with assms have "check_distance Validated g d = Inr ()"
    by (simp add: check_distance_Validated)
  with False show ?thesis
    using queryDistance_after_check queryDistancePair_after_check by blast
qed

theorem distance_check_witness:
  "cellSize Validated grid_2_2 = Inr \<lparr>vx = 1, vy = 1\<rparr>
   \<and> queryDistance Validated pos_centre grid_2_2 1 (0, 0) 1.2 = Inl InvalidArgument
   \<and> queryDistancePair Validated pos_centre hash_addr bucket_7 grid_2_2 1.2
       = Inl InvalidArgument
   \<and> queryDistance Validated pos_centre grid_2_2 1 (0, 0) 0.3 \<noteq> Inl InvalidArgument
   \<and> queryDistancePair Validated pos_centre hash_addr bucket_7 grid_2_2 0.3
       \<noteq> Inl InvalidArgument"
proof -
  have cs: "cellSize Validated grid_2_2 = Inr \<lparr>vx = 1, vy = 1\<rparr>"
    by (simp add: getCellIndex_defs fixture_defs)
  from distance_check [OF cs, of pos_centre 1 "(0, 0)" "1.2" hash_addr bucket_7]
    distance_check [OF cs, of pos_centre 1 "(0, 0)" "0.3" hash_addr bucket_7] cs
  show ?thesis by simp
qed

subsection \<open>The set of pairs\<close>

lemma symmetric_pair_equal_sym:
  "symmetric_pair_equal p q \<Longrightarrow> symmetric_pair_equal q p"
  by (auto simp: symmetric_pair_equal_def)

lemma symmetric_pair_equal_hash:
  "symmetric_pair_equal p q \<Longrightarrow> symmetric_pair_hash h p = symmetric_pair_hash h q"
  by (cases p; cases q) (auto simp: symmetric_pair_equal_def symmetric_pair_hash_def xor.commute)

text \<open>
  \<^verbatim>\<open>emplace\<close> finds an equal element whenever there is one: equal pairs have equal
  hashes, so they fall into the same bucket.
\<close>

lemma emplace_cases:
  "(emplace h bk p s = s \<and> (\<exists>q \<in> set s. symmetric_pair_equal q p))
   \<or> (emplace h bk p s = s @ [p] \<and> (\<forall>q \<in> set s. \<not> symmetric_pair_equal q p))"
proof (cases "\<exists>q \<in> set s. symmetric_pair_equal q p")
  case True
  then obtain q where q: "q \<in> set s" "symmetric_pair_equal q p" by blast
  then have "bk (length s) (symmetric_pair_hash h q) = bk (length s) (symmetric_pair_hash h p)"
    by (simp add: symmetric_pair_equal_hash [of q p h])
  with q have "emplace h bk p s = s"
    by (auto simp: emplace_def list_ex_iff)
  with True show ?thesis by simp
next
  case False
  then have "emplace h bk p s = s @ [p]"
    by (auto simp: emplace_def list_ex_iff)
  with False show ?thesis by simp
qed

lemma emplace_no_duplicate:
  assumes "no_duplicate_pairs s"
  shows "no_duplicate_pairs (emplace h bk p s)"
proof -
  from emplace_cases [of h bk p s] show ?thesis
  proof (elim disjE conjE)
    assume "emplace h bk p s = s"
    with assms show ?thesis by simp
  next
    assume e: "emplace h bk p s = s @ [p]" and n: "\<forall>q \<in> set s. \<not> symmetric_pair_equal q p"
    have "no_duplicate_pairs (s @ [p])"
      unfolding no_duplicate_pairs_def
    proof (intro allI impI)
      fix i j
      assume i: "i < length (s @ [p])" and j: "j < length (s @ [p])" and ij: "i \<noteq> j"
      show "\<not> symmetric_pair_equal ((s @ [p]) ! i) ((s @ [p]) ! j)"
      proof (cases "i < length s")
        case True
        note iT = this
        show ?thesis
        proof (cases "j < length s")
          case True
          with iT ij assms show ?thesis
            by (simp add: no_duplicate_pairs_def nth_append)
        next
          case False
          with j have "j = length s" by simp
          with iT n show ?thesis by (simp add: nth_append)
        qed
      next
        case False
        with i have il: "i = length s" by simp
        with ij j have jl: "j < length s" by simp
        with n have "\<not> symmetric_pair_equal (s ! j) p" by simp
        then have "\<not> symmetric_pair_equal p (s ! j)"
          using symmetric_pair_equal_sym by blast
        with il jl show ?thesis by (simp add: nth_append)
      qed
    qed
    with e show ?thesis by simp
  qed
qed

lemma check_pairs_no_duplicate:
  assumes "no_duplicate_pairs s"
  shows "no_duplicate_pairs (check_pairs h bk near cb s)"
  unfolding check_pairs_def
proof (rule fold_invariant [where P = no_duplicate_pairs])
  show "no_duplicate_pairs s" by fact
next
  fix i t
  assume "no_duplicate_pairs t"
  then show "no_duplicate_pairs
               (fold (\<lambda>j r. if near (cb ! i) (cb ! j) then emplace h bk (cb ! i, cb ! j) r else r)
                  [i + 1..<length cb] t)"
    by (rule fold_invariant [where P = no_duplicate_pairs]) (simp add: emplace_no_duplicate)
qed

lemma sweep_step_no_duplicate:
  assumes "no_duplicate_pairs s" "sweep_step h bk near g row col s = Inr s'"
  shows "no_duplicate_pairs s'"
  using assms
  by (auto simp: sweep_step_def Let_def check_pairs_no_duplicate split: sum.splits if_splits)

lemma queryDistancePair_loop:
  assumes "queryDistancePair bld pos h bk g d = Inr result"
  shows "for_each [1..<rows g]
           (\<lambda>row. for_each [1..<columns g]
              (sweep_step h bk (\<lambda>body1 body2. distance2 (pos body1) (pos body2) \<le> d ^ 2) g row))
           [] = Inr result"
  using assms by (simp add: queryDistancePair_def Let_def split: sum.splits)

lemma queryDistancePair_no_duplicate:
  assumes "queryDistancePair bld pos h bk g d = Inr result"
  shows "no_duplicate_pairs result"
proof -
  let ?near = "\<lambda>body1 body2. distance2 (pos body1) (pos body2) \<le> d ^ 2"
  note loop = queryDistancePair_loop [OF assms]
  have "no_duplicate_pairs []" by (simp add: no_duplicate_pairs_def)
  with loop show ?thesis
  proof (rule for_each_invariant [where P = no_duplicate_pairs])
    fix row t t'
    assume t: "no_duplicate_pairs t"
      and inner: "for_each [1..<columns g] (sweep_step h bk ?near g row) t = Inr t'"
    show "no_duplicate_pairs t'"
    proof (rule for_each_invariant [OF inner, where P = no_duplicate_pairs])
      show "no_duplicate_pairs t" by fact
    next
      fix col u u'
      assume "no_duplicate_pairs u" "sweep_step h bk ?near g row col u = Inr u'"
      then show "no_duplicate_pairs u'" by (rule sweep_step_no_duplicate)
    qed
  qed
qed

text \<open>
  C5. The pair (A, B) has the hash of the pair (B, A) and compares equal to it, and the
  set \<^verbatim>\<open>queryDistancePair\<close> returns never holds two elements that are the same two
  handles in either order.
\<close>

theorem symmetric_pairs_unique:
  "symmetric_pair_hash hash_ptr (A, B) = symmetric_pair_hash hash_ptr (B, A)
   \<and> symmetric_pair_equal (A, B) (B, A)
   \<and> (queryDistancePair bld pos hash_ptr bucket g d = Inr result
        \<longrightarrow> no_duplicate_pairs result)"
  by (simp add: symmetric_pair_hash_def symmetric_pair_equal_def xor.commute
        queryDistancePair_no_duplicate)

theorem symmetric_pairs_unique_witness:
  "queryDistancePair Validated pos_centre hash_addr bucket_7 grid_2_2 0.3
     = Inr [(4, 3), (4, 2), (4, 1), (3, 2), (3, 1), (2, 1)]
   \<and> no_duplicate_pairs [(4, 3), (4, 2), (4, 1), (3, 2), (3, 1), (2, 1)]"
proof -
  have q: "queryDistancePair Validated pos_centre hash_addr bucket_7 grid_2_2 0.3
             = Inr [(4, 3), (4, 2), (4, 1), (3, 2), (3, 1), (2, 1)]"
    by code_simp
  from symmetric_pairs_unique [of hash_addr 0 0 Validated pos_centre bucket_7 grid_2_2 "0.3"
      "[(4, 3), (4, 2), (4, 1), (3, 2), (3, 1), (2, 1)]"] q
  show ?thesis by blast
qed

subsection \<open>Bodies within the distance lie in adjacent cells\<close>

lemma distance_le_iff: "0 \<le> d \<Longrightarrow> distance a b \<le> d \<longleftrightarrow> distance2 a b \<le> d ^ 2"
proof -
  assume d: "0 \<le> d"
  have "sqrt (distance2 a b) \<le> d \<longleftrightarrow> sqrt (distance2 a b) \<le> sqrt (d ^ 2)"
    using d by simp
  also have "\<dots> \<longleftrightarrow> distance2 a b \<le> d ^ 2"
    by (rule real_sqrt_le_iff)
  finally show ?thesis
    by (simp add: distance_def distance2_def)
qed

lemma static_cast_size_t_cases:
  assumes "static_cast_size_t v = Inr n"
  shows "(0 \<le> v \<and> n = nat \<lfloor>v\<rfloor>) \<or> (- 1 < v \<and> v < 0 \<and> n = 0)"
proof (cases "0 \<le> v")
  case True
  with assms show ?thesis
    by (auto simp: static_cast_size_t_def Let_def split: if_splits)
next
  case False
  with assms have c: "0 \<le> \<lceil>v\<rceil>" "n = nat \<lceil>v\<rceil>"
    by (auto simp: static_cast_size_t_def Let_def split: if_splits)
  from c(1) have "- 1 < v" by (simp add: le_ceiling_iff)
  moreover from False have "\<lceil>v\<rceil> \<le> 0" by (simp add: ceiling_le_iff)
  ultimately show ?thesis using False c by simp
qed

lemma static_cast_size_t_bounds:
  assumes "static_cast_size_t v = Inr n"
  shows "v < real n + 1" and "0 < n \<Longrightarrow> real n \<le> v" and "- 1 < v"
proof -
  from static_cast_size_t_cases [OF assms]
  have "v < real n + 1 \<and> (0 < n \<longrightarrow> real n \<le> v) \<and> - 1 < v"
  proof
    assume a: "0 \<le> v \<and> n = nat \<lfloor>v\<rfloor>"
    then have "0 \<le> \<lfloor>v\<rfloor>" by simp
    with a have "real n = of_int \<lfloor>v\<rfloor>" by simp
    moreover have "of_int \<lfloor>v\<rfloor> \<le> v" "v < of_int \<lfloor>v\<rfloor> + 1" by linarith+
    ultimately show ?thesis using a by simp
  next
    assume "- 1 < v \<and> v < 0 \<and> n = 0"
    then show ?thesis by simp
  qed
  then show "v < real n + 1" and "0 < n \<Longrightarrow> real n \<le> v" and "- 1 < v"
    by simp_all
qed

lemma static_cast_size_t_adjacent:
  assumes "static_cast_size_t u = Inr n" "static_cast_size_t v = Inr m" "\<bar>u - v\<bar> \<le> 1"
  shows "n \<le> m + 1 \<and> m \<le> n + 1"
proof -
  have half: "n' \<le> m' + 1"
    if a: "static_cast_size_t u' = Inr n'" and b: "static_cast_size_t v' = Inr m'"
      and c: "u' - v' \<le> 1" for u' v' n' m'
  proof (rule ccontr)
    assume "\<not> n' \<le> m' + 1"
    then have big: "m' + 2 \<le> n'" by simp
    then have "0 < n'" by simp
    from static_cast_size_t_bounds(2) [OF a this] have "real n' \<le> u'" .
    moreover from static_cast_size_t_bounds(1) [OF b] have "v' < real m' + 1" .
    moreover from big have "real m' + 2 \<le> real n'" by linarith
    ultimately show False using c by linarith
  qed
  from assms(3) have "u - v \<le> 1" "v - u \<le> 1" by linarith+
  with half [OF assms(1) assms(2)] half [OF assms(2) assms(1)] show ?thesis by simp
qed

lemma getCellIndex_Inr:
  assumes "getCellIndex bld pos g b = Inr (r, c)"
  shows "\<exists>cs. cellSize bld g = Inr cs \<and> vx cs \<noteq> 0 \<and> vy cs \<noteq> 0
     \<and> static_cast_size_t ((vy (pos b) - vy (position (bound g))) / vy cs) = Inr r
     \<and> static_cast_size_t ((vx (pos b) - vx (position (bound g))) / vx cs) = Inr c"
proof -
  from assms obtain cs where cs: "cellSize bld g = Inr cs"
    by (cases "cellSize bld g") (auto simp: getCellIndex_def)
  let ?ry = "vy (pos b) - vy (position (bound g))"
  let ?rx = "vx (pos b) - vx (position (bound g))"
  from assms cs have y0: "vy cs \<noteq> 0"
    by (auto simp: getCellIndex_def fdiv_def minus_v_def)
  with assms cs obtain row where row: "static_cast_size_t (?ry / vy cs) = Inr row"
    by (cases "static_cast_size_t (?ry / vy cs)") (auto simp: getCellIndex_def fdiv_def minus_v_def)
  from assms cs y0 row have x0: "vx cs \<noteq> 0"
    by (auto simp: getCellIndex_def fdiv_def minus_v_def)
  with assms cs y0 row obtain col where col: "static_cast_size_t (?rx / vx cs) = Inr col"
    by (cases "static_cast_size_t (?rx / vx cs)") (auto simp: getCellIndex_def fdiv_def minus_v_def)
  from assms cs y0 row x0 col have "row = r" "col = c"
    by (auto simp: getCellIndex_def fdiv_def minus_v_def throwOutOfRange_def split: if_splits)
  with cs y0 x0 row col show ?thesis by simp
qed

lemma near_component:
  assumes "distance2 p q \<le> d ^ 2" "0 \<le> d"
  shows "\<bar>vx p - vx q\<bar> \<le> d" "\<bar>vy p - vy q\<bar> \<le> d"
proof -
  have "(vx p - vx q) ^ 2 \<le> distance2 p q"
    by (simp add: distance2_def power2_commute)
  with assms(1) have "(vx p - vx q) ^ 2 \<le> d ^ 2" by linarith
  then have "\<bar>vx p - vx q\<bar> \<le> \<bar>d\<bar>" by (simp add: abs_le_square_iff)
  with assms(2) show "\<bar>vx p - vx q\<bar> \<le> d" by simp
  have "(vy p - vy q) ^ 2 \<le> distance2 p q"
    by (simp add: distance2_def power2_commute)
  with assms(1) have "(vy p - vy q) ^ 2 \<le> d ^ 2" by linarith
  then have "\<bar>vy p - vy q\<bar> \<le> \<bar>d\<bar>" by (simp add: abs_le_square_iff)
  with assms(2) show "\<bar>vy p - vy q\<bar> \<le> d" by simp
qed

lemma quotient_close:
  fixes s :: real
  assumes "\<bar>a - a'\<bar> \<le> d" "0 \<le> d" "d \<le> s" "s \<noteq> 0"
  shows "\<bar>(a - z) / s - (a' - z) / s\<bar> \<le> 1"
proof -
  from assms have s: "0 < s" by linarith
  have "(a - z) / s - (a' - z) / s = (a - a') / s"
    by (simp add: diff_divide_distrib)
  then have "\<bar>(a - z) / s - (a' - z) / s\<bar> = \<bar>a - a'\<bar> / s"
    using s by simp
  also have "\<dots> \<le> s / s"
    using assms s by (intro divide_right_mono) linarith+
  finally show ?thesis using s by simp
qed

lemma near_cells_adjacent:
  assumes b: "getCellIndex bld pos g b = Inr (r, c)"
    and p: "getCellIndex bld pos g p = Inr (r', c')"
    and cs: "cellSize bld g = Inr cs"
    and d: "0 \<le> d" "d \<le> min (vx cs) (vy cs)"
    and near: "distance2 (pos p) (pos b) \<le> d ^ 2"
  shows "r' \<le> r + 1 \<and> r \<le> r' + 1 \<and> c' \<le> c + 1 \<and> c \<le> c' + 1"
proof -
  from getCellIndex_Inr [OF b] cs have B: "vx cs \<noteq> 0" "vy cs \<noteq> 0"
    "static_cast_size_t ((vy (pos b) - vy (position (bound g))) / vy cs) = Inr r"
    "static_cast_size_t ((vx (pos b) - vx (position (bound g))) / vx cs) = Inr c"
    by auto
  from getCellIndex_Inr [OF p] cs have P:
    "static_cast_size_t ((vy (pos p) - vy (position (bound g))) / vy cs) = Inr r'"
    "static_cast_size_t ((vx (pos p) - vx (position (bound g))) / vx cs) = Inr c'"
    by auto
  note nc = near_component [OF near d(1)]
  from d(2) have dx: "d \<le> vx cs" and dy: "d \<le> vy cs" by simp_all
  from static_cast_size_t_adjacent [OF P(1) B(3) quotient_close [OF nc(2) d(1) dy B(2)]]
    static_cast_size_t_adjacent [OF P(2) B(4) quotient_close [OF nc(1) d(1) dx B(1)]]
  show ?thesis by simp
qed

subsection \<open>The positions the validated build accepts\<close>

text \<open>
  Over a bound of positive size, \<^verbatim>\<open>getCellIndex\<close> succeeds in the validated build only
  for positions less than one cell before the near edges and strictly before the far
  edges: the far side is rejected, the strip of one cell before the near side is not.
\<close>

lemma getCellIndex_Validated_in_range:
  assumes "getCellIndex Validated pos g b = Inr (r, c)"
  shows "r < rows g \<and> c < columns g"
proof -
  from getCellIndex_Inr [OF assms] obtain cs where cs: "cellSize Validated g = Inr cs"
    "vx cs \<noteq> 0" "vy cs \<noteq> 0"
    "static_cast_size_t ((vy (pos b) - vy (position (bound g))) / vy cs) = Inr r"
    "static_cast_size_t ((vx (pos b) - vx (position (bound g))) / vx cs) = Inr c"
    by blast
  with assms show ?thesis
    by (auto simp: getCellIndex_def fdiv_def minus_v_def throwOutOfRange_def split: if_splits)
qed

lemma quotient_bounds:
  fixes a w n :: real
  assumes "0 < w"
  shows "- 1 < a / w \<Longrightarrow> - w < a" and "a / w < n \<Longrightarrow> a < n * w"
  using assms by (simp_all add: field_simps)

lemma getCellIndex_Validated_extent:
  assumes idx: "getCellIndex Validated pos g b = Inr (r, c)"
    and pos_size: "0 < vx (size_r (bound g))" "0 < vy (size_r (bound g))"
  shows "- (vx (size_r (bound g)) / real (columns g)) < vx (pos b) - vx (position (bound g))"
    and "vx (pos b) - vx (position (bound g)) < vx (size_r (bound g))"
    and "- (vy (size_r (bound g)) / real (rows g)) < vy (pos b) - vy (position (bound g))"
    and "vy (pos b) - vy (position (bound g)) < vy (size_r (bound g))"
proof -
  note rng = getCellIndex_Validated_in_range [OF idx]
  then have R: "0 < rows g" and C: "0 < columns g" by auto
  define cw where "cw = vx (size_r (bound g)) / real (columns g)"
  define ch where "ch = vy (size_r (bound g)) / real (rows g)"
  define rx where "rx = vx (pos b) - vx (position (bound g))"
  define ry where "ry = vy (pos b) - vy (position (bound g))"
  from getCellIndex_Inr [OF idx] cellSize_Inr [OF R C, of Validated]
  have sc: "static_cast_size_t (ry / ch) = Inr r" "static_cast_size_t (rx / cw) = Inr c"
    by (auto simp: cw_def ch_def rx_def ry_def)
  have cw: "0 < cw" and ch: "0 < ch" using pos_size R C by (simp_all add: cw_def ch_def)
  have wx: "real (columns g) * cw = vx (size_r (bound g))"
    and wy: "real (rows g) * ch = vy (size_r (bound g))"
    using R C by (simp_all add: cw_def ch_def)
  from quotient_bounds(1) [OF cw static_cast_size_t_bounds(3) [OF sc(2)]]
  show "- (vx (size_r (bound g)) / real (columns g)) < vx (pos b) - vx (position (bound g))"
    by (simp add: cw_def rx_def)
  from quotient_bounds(1) [OF ch static_cast_size_t_bounds(3) [OF sc(1)]]
  show "- (vy (size_r (bound g)) / real (rows g)) < vy (pos b) - vy (position (bound g))"
    by (simp add: ch_def ry_def)
  have "rx / cw < real c + 1" by (rule static_cast_size_t_bounds(1) [OF sc(2)])
  also have "\<dots> \<le> real (columns g)" using rng by simp
  finally have "rx < real (columns g) * cw" by (rule quotient_bounds(2) [OF cw])
  then show "vx (pos b) - vx (position (bound g)) < vx (size_r (bound g))"
    by (simp add: wx rx_def)
  have "ry / ch < real r + 1" by (rule static_cast_size_t_bounds(1) [OF sc(1)])
  also have "\<dots> \<le> real (rows g)" using rng by simp
  finally have "ry < real (rows g) * ch" by (rule quotient_bounds(2) [OF ch])
  then show "vy (pos b) - vy (position (bound g)) < vy (size_r (bound g))"
    by (simp add: wy ry_def)
qed

subsection \<open>The query around one body in exact arithmetic\<close>

lemma for_each_collect:
  assumes "\<forall>x \<in> set xs. f x = Inr (k x)"
  shows "for_each xs (\<lambda>x res. case f x of Inl e \<Rightarrow> Inl e | Inr cell \<Rightarrow> Inr (res @ h cell)) init
         = Inr (init @ concat (map (\<lambda>x. h (k x)) xs))"
  using assms by (induction xs arbitrary: init) simp_all

lemma Matrix_call_wf:
  assumes "Grid_wf g" "r < rows g" "c < columns g"
  shows "Matrix_call (cells g) r c = Inr (r * columns g + c)"
  using assms index_bound [of r "rows g" c "columns g"]
  by (simp add: Matrix_call_def Grid_wf_def)

lemma grid_bodies_iff:
  assumes "Grid_wf g"
  shows "p \<in> grid_bodies g \<longleftrightarrow>
         (\<exists>r < rows g. \<exists>c < columns g. p \<in> set (cell_of g (r * columns g + c)))"
proof
  assume "p \<in> grid_bodies g"
  then obtain ys where ys: "ys \<in> set (data (cells g))" "p \<in> set ys"
    by (auto simp: grid_bodies_def)
  from ys(1) obtain k where "k < length (data (cells g))" "data (cells g) ! k = ys"
    by (auto simp: in_set_conv_nth)
  with ys(2) have k: "k < length (data (cells g))" "p \<in> set (data (cells g) ! k)"
    by simp_all
  with assms have kk: "k < rows g * columns g" by (simp add: Grid_wf_def)
  then have "0 < columns g" by (cases "columns g") simp_all
  from index_split [OF this kk] k(2)
  show "\<exists>r < rows g. \<exists>c < columns g. p \<in> set (cell_of g (r * columns g + c))"
    by (auto simp: cell_of_def)
next
  assume "\<exists>r < rows g. \<exists>c < columns g. p \<in> set (cell_of g (r * columns g + c))"
  then obtain r c where rc: "r < rows g" "c < columns g"
    "p \<in> set (cell_of g (r * columns g + c))" by blast
  from index_bound [OF rc(1,2)] assms have "r * columns g + c < length (data (cells g))"
    by (simp add: Grid_wf_def)
  with rc(3) show "p \<in> grid_bodies g"
    by (auto simp: grid_bodies_def cell_of_def)
qed

lemma adjacent_offsets_iff:
  "(dx, dy) \<in> set adjacent_offsets
   \<longleftrightarrow> (dx = - 1 \<or> dx = 0 \<or> dx = 1) \<and> (dy = - 1 \<or> dy = 0 \<or> dy = 1) \<and> \<not> (dx = 0 \<and> dy = 0)"
  by (auto simp: adjacent_offsets_def)

lemma translated_iff:
  "(r', c') \<in> set (map (translate_cell (r, c)) adjacent_offsets)
   \<longleftrightarrow> (c' - int c, r' - int r) \<in> set adjacent_offsets"
proof
  assume "(r', c') \<in> set (map (translate_cell (r, c)) adjacent_offsets)"
  then obtain dx dy where "(dx, dy) \<in> set adjacent_offsets"
    "(r', c') = translate_cell (r, c) (dx, dy)"
    by auto
  then show "(c' - int c, r' - int r) \<in> set adjacent_offsets"
    by (simp add: translate_cell_def)
next
  assume a: "(c' - int c, r' - int r) \<in> set adjacent_offsets"
  have "translate_cell (r, c) (c' - int c, r' - int r) = (r', c')"
    by (simp add: translate_cell_def)
  with a show "(r', c') \<in> set (map (translate_cell (r, c)) adjacent_offsets)"
    by force
qed

lemma adjacent_cells_iff:
  "(r', c') \<in> set (filter (is_cell_within_bound g)
                     (map (translate_cell (r, c)) adjacent_offsets))
   \<longleftrightarrow> (\<bar>r' - int r\<bar> \<le> 1 \<and> \<bar>c' - int c\<bar> \<le> 1 \<and> (r', c') \<noteq> (int r, int c)
        \<and> 0 \<le> r' \<and> r' < int (rows g) \<and> 0 \<le> c' \<and> c' < int (columns g))"
proof -
  have "(c' - int c, r' - int r) \<in> set adjacent_offsets
        \<longleftrightarrow> \<bar>r' - int r\<bar> \<le> 1 \<and> \<bar>c' - int c\<bar> \<le> 1 \<and> (r', c') \<noteq> (int r, int c)"
    unfolding adjacent_offsets_iff by auto
  then show ?thesis
    unfolding set_filter mem_Collect_eq translated_iff
    by (auto simp: is_cell_within_bound_def)
qed


lemma queryDistance_result:
  assumes wf: "Grid_wf g" and rc: "r < rows g" "c < columns g"
    and chk: "check_distance bld g d = Inr ()"
  shows "queryDistance bld pos g b (r, c) d =
     Inr (filter (\<lambda>ptr. \<not> (ptr = b) \<and> distance2 (pos ptr) (pos b) \<le> d ^ 2)
            (cell_of g (r * columns g + c))
          @ concat (map (\<lambda>ci. filter (\<lambda>other. distance2 (pos other) (pos b) \<le> d ^ 2)
                                 (cell_of g (nat (fst ci) * columns g + nat (snd ci))))
                      (filter (is_cell_within_bound g)
                         (map (translate_cell (r, c)) adjacent_offsets))))"
proof -
  let ?near = "\<lambda>other. distance2 (pos other) (pos b) \<le> d ^ 2"
  let ?cis = "filter (is_cell_within_bound g) (map (translate_cell (r, c)) adjacent_offsets)"
  have "\<forall>ci \<in> set ?cis. Matrix_call (cells g) (nat (fst ci)) (nat (snd ci))
                            = Inr (nat (fst ci) * columns g + nat (snd ci))"
  proof
    fix ci assume "ci \<in> set ?cis"
    then have "is_cell_within_bound g ci" by simp
    then have "nat (fst ci) < rows g" "nat (snd ci) < columns g"
      by (auto simp: is_cell_within_bound_def split: prod.splits)
    then show "Matrix_call (cells g) (nat (fst ci)) (nat (snd ci))
               = Inr (nat (fst ci) * columns g + nat (snd ci))"
      by (rule Matrix_call_wf [OF wf])
  qed
  note loop = for_each_collect [OF this, where h = "\<lambda>cell. filter ?near (cell_of g cell)"]
  show ?thesis
    by (simp add: queryDistance_def chk Matrix_call_wf [OF wf rc] loop Let_def)
qed


lemma in_set_concat_map: "p \<in> set (concat (map f xs)) \<longleftrightarrow> (\<exists>x \<in> set xs. p \<in> set (f x))"
  by auto

lemma all_placedD:
  "all_placed bld pos g \<Longrightarrow> r < rows g \<Longrightarrow> c < columns g
   \<Longrightarrow> p \<in> set (cell_of g (r * columns g + c)) \<Longrightarrow> getCellIndex bld pos g p = Inr (r, c)"
  by (simp add: all_placed_def)

text \<open>
  In exact arithmetic, on a well-formed grid in which every handle resides in the cell
  \<^verbatim>\<open>getCellIndex\<close> computes from the position its body reports, for a body \<open>b\<close>
  whose cell index (a cell of the grid) is passed as \<open>body_cell_index\<close> and a distance
  \<open>d\<close> with \<open>0 \<le> d \<le> min (cell width) (cell height)\<close>, the query returns, and the
  handles it returns are exactly the handles in the grid other than \<open>b\<close> whose
  Euclidean distance from \<open>b\<close> is at most \<open>d\<close>; \<open>b\<close> itself is never among them.
\<close>

lemma queryDistance_exact_arithmetic:
  assumes wf: "Grid_wf g" and placed: "all_placed bld pos g"
    and idx: "getCellIndex bld pos g b = Inr body_cell_index"
    and inr: "fst body_cell_index < rows g" "snd body_cell_index < columns g"
    and cs: "cellSize bld g = Inr cell_size"
    and d: "0 \<le> d" "d \<le> min (vx cell_size) (vy cell_size)"
  shows "\<exists>result. queryDistance bld pos g b body_cell_index d = Inr result
           \<and> set result = {other \<in> grid_bodies g. other \<noteq> b \<and> distance (pos other) (pos b) \<le> d}
           \<and> b \<notin> set result"
proof -
  obtain r c where bci: "body_cell_index = (r, c)" by (cases body_cell_index)
  with inr idx have rc: "r < rows g" "c < columns g"
    and idx': "getCellIndex bld pos g b = Inr (r, c)" by simp_all
  let ?C = "columns g"
  let ?near = "\<lambda>other. distance2 (pos other) (pos b) \<le> d ^ 2"
  let ?cis = "filter (is_cell_within_bound g) (map (translate_cell (r, c)) adjacent_offsets)"
  let ?result = "filter (\<lambda>ptr. \<not> (ptr = b) \<and> ?near ptr) (cell_of g (r * ?C + c))
      @ concat (map (\<lambda>ci. filter ?near (cell_of g (nat (fst ci) * ?C + nat (snd ci)))) ?cis)"
  have chk: "check_distance bld g d = Inr ()"
    using cs d(2) by (cases bld) (auto simp: check_distance_def)
  have res: "queryDistance bld pos g b body_cell_index d = Inr ?result"
    unfolding bci by (rule queryDistance_result [OF wf rc chk])
  have near_iff: "?near p \<longleftrightarrow> distance (pos p) (pos b) \<le> d" for p
    using distance_le_iff [OF d(1), of "pos p" "pos b"] by simp
  have sub: "p \<in> grid_bodies g \<and> p \<noteq> b \<and> distance (pos p) (pos b) \<le> d"
    if p: "p \<in> set ?result" for p
  proof -
    from p have "(p \<in> set (cell_of g (r * ?C + c)) \<and> p \<noteq> b \<and> ?near p)
        \<or> (\<exists>ci \<in> set ?cis. p \<in> set (cell_of g (nat (fst ci) * ?C + nat (snd ci))) \<and> ?near p)"
      unfolding set_append Un_iff in_set_concat_map by auto
    then consider (same) "p \<in> set (cell_of g (r * ?C + c))" "p \<noteq> b" "?near p"
      | (adj) ci where "ci \<in> set ?cis"
          "p \<in> set (cell_of g (nat (fst ci) * ?C + nat (snd ci)))" "?near p"
      by blast
    then show ?thesis
    proof cases
      case same
      from same(1) rc have "p \<in> grid_bodies g"
        unfolding grid_bodies_iff [OF wf] by blast
      with same near_iff show ?thesis by simp
    next
      case adj
      from adj(1) have "(fst ci, snd ci) \<in> set ?cis" by simp
      then have ci: "(fst ci, snd ci) \<noteq> (int r, int c)" "0 \<le> fst ci" "fst ci < int (rows g)"
        "0 \<le> snd ci" "snd ci < int ?C"
        unfolding adjacent_cells_iff by simp_all
      then have in_range: "nat (fst ci) < rows g" "nat (snd ci) < ?C" by simp_all
      with adj(2) have "p \<in> grid_bodies g"
        unfolding grid_bodies_iff [OF wf] by blast
      moreover have "p \<noteq> b"
      proof
        assume "p = b"
        with all_placedD [OF placed in_range adj(2)] idx'
        have "nat (fst ci) = r" "nat (snd ci) = c" by simp_all
        with ci have "fst ci = int r" "snd ci = int c" by simp_all
        then have "ci = (int r, int c)" by (simp add: prod_eq_iff)
        with ci(1) show False by simp
      qed
      ultimately show ?thesis using adj(3) near_iff by simp
    qed
  qed
  have sup: "p \<in> set ?result"
    if p: "p \<in> grid_bodies g" "p \<noteq> b" "distance (pos p) (pos b) \<le> d" for p
  proof -
    from p(3) near_iff have near: "?near p" by simp
    from p(1) obtain r' c' where rc': "r' < rows g" "c' < ?C"
      "p \<in> set (cell_of g (r' * ?C + c'))"
      unfolding grid_bodies_iff [OF wf] by blast
    note pidx = all_placedD [OF placed rc']
    from near_cells_adjacent [OF idx' pidx cs d near]
    have adj: "r' \<le> r + 1" "r \<le> r' + 1" "c' \<le> c + 1" "c \<le> c' + 1" by simp_all
    show ?thesis
    proof (cases "(r', c') = (r, c)")
      case True
      with rc'(3) p(2) near show ?thesis by simp
    next
      case False
      with adj rc' have "(int r', int c') \<in> set ?cis"
        unfolding adjacent_cells_iff by auto
      moreover have "p \<in> set (filter ?near
          (cell_of g (nat (fst (int r', int c')) * ?C + nat (snd (int r', int c')))))"
        using rc'(3) near by simp
      ultimately show ?thesis
        unfolding set_append Un_iff in_set_concat_map by blast
    qed
  qed
  from sub sup have "set ?result
      = {other \<in> grid_bodies g. other \<noteq> b \<and> distance (pos other) (pos b) \<le> d}"
    by blast
  moreover from sub have "b \<notin> set ?result" by blast
  ultimately show ?thesis using res by blast
qed

subsection \<open>Rounding\<close>

text \<open>The exponent that \<open>fround\<close> rounds at is the exponent of the value.\<close>

lemma bit_length_nonneg: "0 \<le> bit_length n"
  by (induction n rule: bit_length.induct) (simp add: bit_length.simps)

lemma bit_length_bounds:
  "0 < n \<Longrightarrow> 2 ^ nat (bit_length n - 1) \<le> n \<and> n < 2 ^ nat (bit_length n)"
proof (induction n rule: bit_length.induct)
  case (1 n)
  show ?case
  proof (cases "n = 1")
    case True
    have "bit_length (1 div 2) = 0" by (simp add: bit_length.simps)
    then have "bit_length 1 = 1" by (simp add: bit_length.simps [of 1])
    with True show ?thesis by simp
  next
    case False
    with "1.prems" have h: "0 < n div 2" by simp
    from "1.prems" have nn: "\<not> n \<le> 0" by simp
    from "1.IH" [OF nn h]
    have IH: "2 ^ nat (bit_length (n div 2) - 1) \<le> n div 2"
      "n div 2 < 2 ^ nat (bit_length (n div 2))" by simp_all
    have bl: "bit_length n = 1 + bit_length (n div 2)"
      using nn by (simp add: bit_length.simps [of n])
    from h have pos: "1 \<le> bit_length (n div 2)"
      using bit_length_nonneg [of "n div 2 div 2"] by (simp add: bit_length.simps [of "n div 2"])
    then have e1: "nat (bit_length n - 1) = Suc (nat (bit_length (n div 2) - 1))"
      by (simp add: bl nat_diff_distrib Suc_nat_eq_nat_zadd1)
    have e2: "nat (bit_length n) = Suc (nat (bit_length (n div 2)))"
      using pos by (simp add: bl Suc_nat_eq_nat_zadd1 add.commute)
    have "2 * (n div 2) \<le> n" "n < 2 * (n div 2) + 2" by presburger+
    with IH show ?thesis unfolding e1 e2 by simp
  qed
qed

lemma pow2_pos: "0 < pow2 k"
  by (simp add: pow2_def)

lemma floor_log2_bounds:
  assumes "0 < x"
  shows "pow2 (floor_log2 x) \<le> x \<and> x < pow2 (floor_log2 x + 1)"
proof (cases "1 \<le> x")
  case True
  define n where "n = \<lfloor>x\<rfloor>"
  from True have n: "0 < n" by (simp add: n_def)
  define k where "k = bit_length n"
  from bit_length_bounds [OF n] have b: "2 ^ nat (k - 1) \<le> n" "n < 2 ^ nat k"
    by (simp_all add: k_def)
  have kpos: "1 \<le> k"
  proof (rule ccontr)
    assume "\<not> 1 \<le> k"
    then have "nat k = 0" by simp
    with b(2) n show False by simp
  qed
  have "real_of_int n \<le> x" "x < real_of_int n + 1" by (simp_all add: n_def)
  moreover from b(1) have "real_of_int (2 ^ nat (k - 1)) \<le> real_of_int n"
    by (simp only: of_int_le_iff)
  then have "(2::real) ^ nat (k - 1) \<le> real_of_int n" by simp
  moreover from b(2) have "n + 1 \<le> 2 ^ nat k" by simp
  then have "real_of_int (n + 1) \<le> real_of_int (2 ^ nat k)"
    by (simp only: of_int_le_iff)
  then have "real_of_int n + 1 \<le> 2 ^ nat k" by simp
  ultimately have "2 ^ nat (k - 1) \<le> x" "x < 2 ^ nat k" by linarith+
  moreover have "floor_log2 x = k - 1" using True by (simp add: floor_log2_def n_def k_def)
  ultimately show ?thesis using kpos by (simp add: pow2_def)
next
  case False
  define y where "y = 1 / x"
  from False assms have y: "1 < y" by (simp add: y_def)
  define m where "m = \<lceil>y\<rceil> - 1"
  from y have m: "0 < m" unfolding m_def by linarith
  define k where "k = bit_length m"
  from bit_length_bounds [OF m] have b: "2 ^ nat (k - 1) \<le> m" "m < 2 ^ nat k"
    by (simp_all add: k_def)
  have kpos: "1 \<le> k"
  proof (rule ccontr)
    assume "\<not> 1 \<le> k"
    then have "nat k = 0" by simp
    with b(2) m show False by simp
  qed
  have my: "real_of_int m < y" "y \<le> real_of_int m + 1" unfolding m_def by linarith+
  from b(1) have "real_of_int (2 ^ nat (k - 1)) \<le> real_of_int m"
    by (simp only: of_int_le_iff)
  then have "(2::real) ^ nat (k - 1) \<le> real_of_int m" by simp
  with my have lo: "2 ^ nat (k - 1) < y" by linarith
  from b(2) have "m + 1 \<le> 2 ^ nat k" by simp
  then have "real_of_int (m + 1) \<le> real_of_int (2 ^ nat k)"
    by (simp only: of_int_le_iff)
  then have "real_of_int m + 1 \<le> 2 ^ nat k" by simp
  with my have hi: "y \<le> 2 ^ nat k" by linarith
  have fl: "floor_log2 x = - k" using False by (simp add: floor_log2_def y_def m_def k_def)
  from hi assms have "1 / 2 ^ nat k \<le> x"
    unfolding y_def by (simp add: field_simps)
  moreover from lo assms have "x < 1 / 2 ^ nat (k - 1)"
    unfolding y_def by (simp add: field_simps)
  moreover have "pow2 (- k) = 1 / 2 ^ nat k" using kpos by (simp add: pow2_def)
  moreover have "pow2 (- k + 1) = 1 / 2 ^ nat (k - 1)"
    using kpos by (cases "k = 1") (simp_all add: pow2_def)
  ultimately show ?thesis unfolding fl by simp
qed

text \<open>
  Rounding at the edges of binary32: a tie goes to the even significand, the subnormal
  values keep the spacing \<open>1 / 2 ^ 149\<close>, half of the least of them rounds to zero,
  the greatest finite value is \<open>2 ^ 128 - 2 ^ 104\<close>, and what lies half a unit
  beyond it is infinite.
\<close>

lemma fround_binary32_edges:
  "fround binary32 (2 ^ 24 + 1) = Some (2 ^ 24)"
  "fround binary32 (2 ^ 24 + 3) = Some (2 ^ 24 + 4)"
  "fround binary32 (- (2 ^ 24 + 3)) = Some (- (2 ^ 24 + 4))"
  "fround binary32 (3 / 2 ^ 150) = Some (1 / 2 ^ 148)"
  "fround binary32 (1 / 2 ^ 150) = Some 0"
  "fround binary32 (2 ^ 128 - 2 ^ 104) = Some (2 ^ 128 - 2 ^ 104)"
  "fround binary32 (2 ^ 128 - 2 ^ 103) = None"
  by code_simp+

text \<open>The literals of the test suite.\<close>

lemma f32_values:
  "fround binary32 0.1 = Some f32_0_1" "fround binary32 0.9 = Some f32_0_9"
  "fround binary32 1.1 = Some f32_1_1" "fround binary32 0.3 = Some f32_0_3"
  by code_simp+

subsection \<open>The query around one body in the arithmetic of the source\<close>



lemma static_cast_int_wraps:
  "static_cast_int (2 ^ 31) = - (2 ^ 31)"
  "translate_cell_int (2 ^ 31, 0) (0, 1) = Inr (- (2 ^ 31) + 1, 0)"
  "translate_cell_int (2 ^ 31, 0) (0, - 1) = Inl Undefined"
  by (simp_all add: static_cast_int_def translate_cell_int_def add_int_def)


lemma ring_cells_iff:
  "(r', c') \<in> set (ring_cells g (r, c))
   \<longleftrightarrow> r' < rows g \<and> c' < columns g \<and> r' \<le> r + 1 \<and> r \<le> r' + 1 \<and> c' \<le> c + 1 \<and> c \<le> c' + 1"
  by (auto simp: ring_cells_def)

lemma ring_bodies_iff:
  "p \<in> ring_bodies g (r, c)
   \<longleftrightarrow> (\<exists>r' c'. r' < rows g \<and> c' < columns g \<and> r' \<le> r + 1 \<and> r \<le> r' + 1
                 \<and> c' \<le> c + 1 \<and> c \<le> c' + 1 \<and> p \<in> set (cell_of g (r' * columns g + c')))"
proof -
  have "p \<in> ring_bodies g (r, c)
        \<longleftrightarrow> (\<exists>r' c'. (r', c') \<in> set (ring_cells g (r, c))
                      \<and> p \<in> set (cell_of g (r' * columns g + c')))"
    unfolding ring_bodies_def by auto
  then show ?thesis unfolding ring_cells_iff by blast
qed





text \<open>
  In exact arithmetic the functions of the source are the exact ones, and within the
  distance the cell passed and its adjacent cells hold every body of the grid.
\<close>

lemma cellSize_fp_exact: "cellSize_fp exact_arith bld g = cellSize bld g"
  by (simp add: cellSize_fp_def cellSize_def cwiseDiv_fp_def cwiseDiv_def static_cast_T_def
        div_T_def fdiv_def exact_arith_def)

lemma getCellIndex_fp_exact: "getCellIndex_fp exact_arith bld pos g b = getCellIndex bld pos g b"
proof -
  have "div_T exact_arith (Some a) s = (case fdiv a s of Inl e \<Rightarrow> Inl e | Inr q \<Rightarrow> Inr (Some q))"
    for a s
    by (simp add: div_T_def fdiv_def exact_arith_def)
  then show ?thesis
    unfolding getCellIndex_fp_def getCellIndex_def cellSize_fp_exact
    by (simp add: Let_def minus_v_def static_cast_size_t_fp_def exact_arith_def
          split: sum.splits)
qed

lemma all_placed_fp_exact: "all_placed_fp exact_arith bld pos g = all_placed bld pos g"
  by (simp add: all_placed_fp_def all_placed_def getCellIndex_fp_exact)

lemma is_nearby_fp_exact:
  "is_nearby_fp exact_arith pos b d other \<longleftrightarrow> distance2 (pos other) (pos b) \<le> d ^ 2"
  by (simp add: is_nearby_fp_def distance2_fp_def distance2_def exact_arith_def power2_eq_square)

lemma ring_bodies_exact_arith:
  assumes wf: "Grid_wf g" and placed: "all_placed_fp exact_arith bld pos g"
    and idx: "getCellIndex_fp exact_arith bld pos g b = Inr body_cell_index"
    and inr: "fst body_cell_index < rows g" "snd body_cell_index < columns g"
    and cs: "cellSize_fp exact_arith bld g = Inr cell_size"
    and d: "0 \<le> d" "d \<le> min (vx cell_size) (vy cell_size)"
  shows "{other \<in> ring_bodies g body_cell_index.
            other \<noteq> b \<and> is_nearby_fp exact_arith pos b d other}
         = {other \<in> grid_bodies g. other \<noteq> b \<and> distance (pos other) (pos b) \<le> d}"
proof -
  obtain r c where bci: "body_cell_index = (r, c)" by (cases body_cell_index)
  from idx have idx': "getCellIndex bld pos g b = Inr (r, c)"
    by (simp add: getCellIndex_fp_exact bci)
  from placed have placed': "all_placed bld pos g" by (simp add: all_placed_fp_exact)
  from cs have cs': "cellSize bld g = Inr cell_size" by (simp add: cellSize_fp_exact)
  have near_iff: "is_nearby_fp exact_arith pos b d p \<longleftrightarrow> distance (pos p) (pos b) \<le> d" for p
    using distance_le_iff [OF d(1), of "pos p" "pos b"] by (simp add: is_nearby_fp_exact)
  have "p \<in> ring_bodies g (r, c) \<longleftrightarrow> p \<in> grid_bodies g"
    if near: "distance2 (pos p) (pos b) \<le> d ^ 2" for p
  proof
    assume "p \<in> ring_bodies g (r, c)"
    then show "p \<in> grid_bodies g"
      unfolding ring_bodies_iff grid_bodies_iff [OF wf] by blast
  next
    assume "p \<in> grid_bodies g"
    then obtain r' c' where rc': "r' < rows g" "c' < columns g"
      "p \<in> set (cell_of g (r' * columns g + c'))"
      unfolding grid_bodies_iff [OF wf] by blast
    note pidx = all_placedD [OF placed' rc']
    from near_cells_adjacent [OF idx' pidx cs' d near] rc'
    show "p \<in> ring_bodies g (r, c)"
      unfolding ring_bodies_iff by blast
  qed
  then show ?thesis
    unfolding bci using near_iff distance_le_iff [OF d(1)] by blast
qed


text \<open>
  Rounding in \<^verbatim>\<open>getCellIndex\<close> can also put two bodies that are less than a cell size
  apart two columns apart, where the query does not look: on the grid of unit cells
  over the bound from (-3, 0) to (5, 2) the bodies at \<open>x = 1 - 3 / 2 ^ 24\<close> and at
  \<open>x = 2 - 1 / 2 ^ 22\<close> land in the columns 3 and 5, the test \<^verbatim>\<open>is_nearby\<close> holds of them
  for the distance 1, and the query around the first returns no body.
\<close>

lemma queryDistance_float_two_cells_apart:
  "cell_of grid_two_apart 3 = [1] \<and> cell_of grid_two_apart 5 = [2]
   \<and> getCellIndex_fp float_arith Validated pos_two_apart grid_two_apart 1 = Inr (0, 3)
   \<and> getCellIndex_fp float_arith Validated pos_two_apart grid_two_apart 2 = Inr (0, 5)
   \<and> cellSize_fp float_arith Validated grid_two_apart = Inr \<lparr>vx = 1, vy = 1\<rparr>
   \<and> is_nearby_fp float_arith pos_two_apart 1 1 2
   \<and> queryDistance_fp float_arith Validated pos_two_apart grid_two_apart 1 (0, 3) 1 = Inr []"
  by code_simp



subsection \<open>The sweep over blocks of four cells\<close>

lemma for_each_total:
  assumes "\<And>i t. i \<in> set xs \<Longrightarrow> \<exists>t'. body i t = Inr t'"
  shows "\<exists>s'. for_each xs body s = Inr s'"
  using assms
proof (induction xs arbitrary: s)
  case Nil
  then show ?case by simp
next
  case (Cons a xs)
  from Cons.prems [of a s] obtain t where t: "body a s = Inr t" by auto
  from Cons.IH [of t] Cons.prems obtain s' where "for_each xs body t = Inr s'" by auto
  with t show ?case by simp
qed

lemma for_each_reaches:
  assumes "for_each xs body s = Inr s'" and "x \<in> set xs"
    and hit: "\<And>t t'. body x t = Inr t' \<Longrightarrow> Q t'"
    and keep: "\<And>i t t'. Q t \<Longrightarrow> body i t = Inr t' \<Longrightarrow> Q t'"
  shows "Q s'"
  using assms(1,2)
proof (induction xs arbitrary: s)
  case Nil
  then show ?case by simp
next
  case (Cons a xs)
  from Cons.prems(1) obtain t where t: "body a s = Inr t" "for_each xs body t = Inr s'"
    by (auto split: sum.splits)
  show ?case
  proof (cases "x = a")
    case True
    with t(1) have "Q t" by (simp add: hit)
    with t(2) show ?thesis
      by (rule for_each_invariant [where P = Q]) (rule keep)
  next
    case False
    with Cons.prems(2) have "x \<in> set xs" by simp
    from Cons.IH [OF t(2) this] show ?thesis .
  qed
qed

lemma fold_reaches:
  assumes "x \<in> set xs"
    and hit: "\<And>t. Q (f x t)"
    and keep: "\<And>i t. Q t \<Longrightarrow> Q (f i t)"
  shows "Q (fold f xs s)"
  using assms(1)
proof (induction xs arbitrary: s)
  case Nil
  then show ?case by simp
next
  case (Cons a xs)
  show ?case
  proof (cases "x = a")
    case True
    have "Q (f a s)" unfolding True [symmetric] by (rule hit)
    then have "Q (fold f xs (f a s))"
      by (rule fold_invariant [where P = Q]) (rule keep)
    then show ?thesis by simp
  next
    case False
    with Cons.prems have "x \<in> set xs" by simp
    from Cons.IH [OF this] show ?thesis by simp
  qed
qed

lemma covered_emplace: "covered e (emplace h bk e s)"
  using emplace_cases [of h bk e s]
  by (auto simp: covered_def list_ex_iff symmetric_pair_equal_def)

lemma covered_emplace_keep: "covered e s \<Longrightarrow> covered e (emplace h bk e' s)"
  using emplace_cases [of h bk e' s]
  by (auto simp: covered_def list_ex_iff)

lemma covered_swap: "covered (p, q) s \<Longrightarrow> covered (q, p) s"
  by (auto simp: covered_def list_ex_iff symmetric_pair_equal_def)

lemma covered_check_pairs_keep:
  "covered e s \<Longrightarrow> covered e (check_pairs h bk near cb s)"
  unfolding check_pairs_def
  by (rule fold_invariant [where P = "covered e"], assumption,
      rule fold_invariant [where P = "covered e"], assumption)
     (simp add: covered_emplace_keep)

lemma covered_check_pairs:
  assumes "i < j" "j < length cb" "near (cb ! i) (cb ! j)"
  shows "covered (cb ! i, cb ! j) (check_pairs h bk near cb s)"
  unfolding check_pairs_def
proof (rule fold_reaches [where x = i and Q = "covered (cb ! i, cb ! j)"])
  show "i \<in> set [0..<length cb]" using assms by simp
next
  fix t
  show "covered (cb ! i, cb ! j)
          (fold (\<lambda>j r. if near (cb ! i) (cb ! j) then emplace h bk (cb ! i, cb ! j) r else r)
             [i + 1..<length cb] t)"
  proof (rule fold_reaches [where x = j and Q = "covered (cb ! i, cb ! j)"])
    show "j \<in> set [i + 1..<length cb]" using assms by simp
  next
    fix u
    show "covered (cb ! i, cb ! j)
            (if near (cb ! i) (cb ! j) then emplace h bk (cb ! i, cb ! j) u else u)"
      using assms(3) by (simp add: covered_emplace)
  next
    fix k u
    assume "covered (cb ! i, cb ! j) u"
    then show "covered (cb ! i, cb ! j)
                 (if near (cb ! i) (cb ! k) then emplace h bk (cb ! i, cb ! k) u else u)"
      by (simp add: covered_emplace_keep)
  qed
next
  fix k t
  assume "covered (cb ! i, cb ! j) t"
  then show "covered (cb ! i, cb ! j)
               (fold (\<lambda>j r. if near (cb ! k) (cb ! j) then emplace h bk (cb ! k, cb ! j) r else r)
                  [k + 1..<length cb] t)"
    by (rule fold_invariant [where P = "covered (cb ! i, cb ! j)"])
       (simp add: covered_emplace_keep)
qed

lemma covered_check_pairs_mem:
  assumes "p \<in> set cb" "q \<in> set cb" "p \<noteq> q" "near p q" "near q p"
  shows "covered (p, q) (check_pairs h bk near cb s)"
proof -
  from assms(1,2) obtain i j where ij: "i < length cb" "cb ! i = p" "j < length cb" "cb ! j = q"
    by (auto simp: in_set_conv_nth)
  with assms(3) have "i \<noteq> j" by auto
  then consider "i < j" | "j < i" by linarith
  then show ?thesis
  proof cases
    case 1
    from covered_check_pairs [OF 1 ij(3), of near h bk s] assms(4) ij show ?thesis by simp
  next
    case 2
    from covered_check_pairs [OF 2 ij(1), of near h bk s] assms(5) ij
    have "covered (q, p) (check_pairs h bk near cb s)" by simp
    then show ?thesis by (rule covered_swap)
  qed
qed


lemma distance2_commute: "distance2 a b = distance2 b a"
  by (simp add: distance2_def power2_commute)

lemma sweep_step_wf:
  assumes wf: "Grid_wf g" and rc: "1 \<le> row" "row < rows g" "1 \<le> col" "col < columns g"
  shows "sweep_step h bk near g row col s =
     Inr (let check_bodies = cell_of g (row * columns g + col)
                @ cell_of g (row * columns g + (col - 1))
                @ cell_of g ((row - 1) * columns g + col)
                @ cell_of g ((row - 1) * columns g + (col - 1))
          in if check_bodies = [] then s else check_pairs h bk near check_bodies s)"
proof -
  from rc have lt: "row - 1 < rows g" "col - 1 < columns g" by simp_all
  note calls = Matrix_call_wf [OF wf rc(2) rc(4)] Matrix_call_wf [OF wf rc(2) lt(2)]
    Matrix_call_wf [OF wf lt(1) rc(4)] Matrix_call_wf [OF wf lt(1) lt(2)]
  show ?thesis
    unfolding sweep_step_def calls sum.case Let_def by simp
qed

lemma sweep_step_covered_keep:
  assumes "covered e s" "sweep_step h bk near g row col s = Inr s'"
  shows "covered e s'"
  using assms
  by (auto simp: sweep_step_def Let_def covered_check_pairs_keep split: sum.splits if_splits)

lemma sweep_row_covered_keep:
  assumes "covered e s" "for_each cols (sweep_step h bk near g row) s = Inr s'"
  shows "covered e s'"
  using assms(2,1)
  by (rule for_each_invariant [where P = "covered e"]) (rule sweep_step_covered_keep)

lemma sweep_step_covered:
  assumes wf: "Grid_wf g" and rc: "1 \<le> row" "row < rows g" "1 \<le> col" "col < columns g"
    and p: "p \<in> set (cell_of g (r1 * columns g + c1))" "r1 = row \<or> r1 = row - 1"
      "c1 = col \<or> c1 = col - 1"
    and q: "q \<in> set (cell_of g (r2 * columns g + c2))" "r2 = row \<or> r2 = row - 1"
      "c2 = col \<or> c2 = col - 1"
    and pq: "p \<noteq> q" "near p q" "near q p"
    and step: "sweep_step h bk near g row col s = Inr s'"
  shows "covered (p, q) s'"
proof -
  let ?cb = "cell_of g (row * columns g + col) @ cell_of g (row * columns g + (col - 1))
             @ cell_of g ((row - 1) * columns g + col)
             @ cell_of g ((row - 1) * columns g + (col - 1))"
  from p have pin: "p \<in> set ?cb" by auto
  from q have qin: "q \<in> set ?cb" by auto
  from pin have ne: "?cb \<noteq> []" by auto
  from step ne have "s' = check_pairs h bk near ?cb s"
    unfolding sweep_step_wf [OF wf rc] Let_def by (simp split: if_splits)
  with covered_check_pairs_mem [OF pin qin pq] show ?thesis by simp
qed

lemma sweep_position:
  fixes r1 r2 R :: nat
  assumes "r1 < R" "r2 < R" "2 \<le> R" "r1 \<le> r2 + 1" "r2 \<le> r1 + 1"
  shows "\<exists>row. 1 \<le> row \<and> row < R \<and> (r1 = row \<or> r1 = row - 1) \<and> (r2 = row \<or> r2 = row - 1)"
proof -
  let ?row = "max 1 (max r1 r2)"
  from assms have "1 \<le> ?row \<and> ?row < R \<and> (r1 = ?row \<or> r1 = ?row - 1)
                   \<and> (r2 = ?row \<or> r2 = ?row - 1)"
    by (auto simp: max_def)
  then show ?thesis by blast
qed

text \<open>
  On a grid with at least two rows and two columns the sweep is complete in exact
  arithmetic: every two cells that are equal or adjacent lie in the block of four
  cells of some sweep position, so every pair of distinct handles within the distance
  is in the result.
\<close>

lemma queryDistancePair_complete:
  assumes wf: "Grid_wf g" and placed: "all_placed bld pos g"
    and big: "2 \<le> rows g" "2 \<le> columns g"
    and cs: "cellSize bld g = Inr cell_size"
    and d: "0 \<le> d" "d \<le> min (vx cell_size) (vy cell_size)"
    and p: "p \<in> grid_bodies g" and q: "q \<in> grid_bodies g"
    and pq: "p \<noteq> q" "distance (pos p) (pos q) \<le> d"
  shows "\<exists>result. queryDistancePair bld pos h bk g d = Inr result \<and> covered (p, q) result"
proof -
  let ?near = "\<lambda>body1 body2. distance2 (pos body1) (pos body2) \<le> d ^ 2"
  let ?C = "columns g"
  have chk: "check_distance bld g d = Inr ()"
    using cs d(2) by (cases bld) (auto simp: check_distance_def)
  have inner_total: "\<exists>t'. for_each [1..<?C] (sweep_step h bk ?near g row) t = Inr t'"
    if "row \<in> set [1..<rows g]" for row t
  proof (rule for_each_total)
    fix col u
    assume "col \<in> set [1..<?C]"
    with that have "1 \<le> row" "row < rows g" "1 \<le> col" "col < ?C" by simp_all
    from sweep_step_wf [OF wf this]
    show "\<exists>u'. sweep_step h bk ?near g row col u = Inr u'" by simp
  qed
  have "\<exists>result. for_each [1..<rows g]
          (\<lambda>row. for_each [1..<?C] (sweep_step h bk ?near g row)) [] = Inr result"
    by (rule for_each_total) (rule inner_total)
  then obtain result where loop: "for_each [1..<rows g]
          (\<lambda>row. for_each [1..<?C] (sweep_step h bk ?near g row)) [] = Inr result" ..
  with chk have res: "queryDistancePair bld pos h bk g d = Inr result"
    by (simp add: queryDistancePair_def)
  from p obtain r1 c1 where p1: "r1 < rows g" "c1 < ?C" "p \<in> set (cell_of g (r1 * ?C + c1))"
    unfolding grid_bodies_iff [OF wf] by blast
  from q obtain r2 c2 where q2: "r2 < rows g" "c2 < ?C" "q \<in> set (cell_of g (r2 * ?C + c2))"
    unfolding grid_bodies_iff [OF wf] by blast
  note pidx = all_placedD [OF placed p1]
  note qidx = all_placedD [OF placed q2]
  from pq(2) have near: "?near p q"
    using distance_le_iff [OF d(1), of "pos p" "pos q"] by simp
  then have near': "?near q p" by (simp add: distance2_commute)
  from near_cells_adjacent [OF qidx pidx cs d near]
  have adj: "r1 \<le> r2 + 1" "r2 \<le> r1 + 1" "c1 \<le> c2 + 1" "c2 \<le> c1 + 1" by simp_all
  from sweep_position [OF p1(1) q2(1) big(1) adj(1,2)] obtain row
    where row: "1 \<le> row" "row < rows g" "r1 = row \<or> r1 = row - 1" "r2 = row \<or> r2 = row - 1"
    by blast
  from sweep_position [OF p1(2) q2(2) big(2) adj(3,4)] obtain col
    where col: "1 \<le> col" "col < ?C" "c1 = col \<or> c1 = col - 1" "c2 = col \<or> c2 = col - 1"
    by blast
  have "covered (p, q) result"
  proof (rule for_each_reaches [OF loop, where x = row and Q = "covered (p, q)"])
    show "row \<in> set [1..<rows g]" using row by simp
  next
    fix t t'
    assume inner: "for_each [1..<?C] (sweep_step h bk ?near g row) t = Inr t'"
    show "covered (p, q) t'"
    proof (rule for_each_reaches [OF inner, where x = col and Q = "covered (p, q)"])
      show "col \<in> set [1..<?C]" using col by simp
    next
      fix u u'
      assume "sweep_step h bk ?near g row col u = Inr u'"
      from sweep_step_covered [OF wf row(1,2) col(1,2) p1(3) row(3) col(3) q2(3) row(4) col(4)
          pq(1), of ?near h bk u u', OF near near' this]
      show "covered (p, q) u'" .
    next
      fix i u u'
      assume "covered (p, q) u" "sweep_step h bk ?near g row i u = Inr u'"
      then show "covered (p, q) u'" by (rule sweep_step_covered_keep)
    qed
  next
    fix i t t'
    assume "covered (p, q) t" "for_each [1..<?C] (sweep_step h bk ?near g i) t = Inr t'"
    then show "covered (p, q) t'" by (rule sweep_row_covered_keep)
  qed
  with res show ?thesis by blast
qed

subsection \<open>Grids of one row or one column\<close>

lemma sweep_empty:
  assumes "rows g = 1 \<or> columns g = 1"
  shows "for_each [1..<rows g] (\<lambda>row. for_each [1..<columns g] (f row)) s = Inr s"
proof -
  have "(\<lambda>row. for_each [] (f row)) = (\<lambda>row t. Inr t)"
    by (intro ext) simp
  with assms show ?thesis
    by (auto simp: for_each_skip)
qed

text \<open>
  C10 as stated fails: in the validated build the single-cell grid raises
  invalid-argument for the distance 2, which exceeds the cell size 1.
\<close>

theorem queryDistancePair_single_row_throws:
  "rows grid_1_1 = 1
   \<and> queryDistancePair Validated pos_line hash_addr bucket_7 grid_1_1 2 = Inl InvalidArgument"
  by code_simp

text \<open>
  C10, amended. On a grid with one row or one column \<^verbatim>\<open>queryDistancePair\<close> returns
  the empty set whenever the distance check lets it run: for every distance in the
  performance build, and for every distance up to the smaller cell dimension in the
  validated build.
\<close>

theorem queryDistancePair_single_row:
  assumes "rows g = 1 \<or> columns g = 1"
    and "bld = Performance \<or> (\<exists>cs. cellSize bld g = Inr cs \<and> d \<le> min (vx cs) (vy cs))"
  shows "queryDistancePair bld pos h bk g d = Inr []"
proof -
  from assms(2) have "check_distance bld g d = Inr ()"
    by (cases bld) (auto simp: check_distance_def)
  with sweep_empty [OF assms(1)] show ?thesis
    by (simp add: queryDistancePair_def)
qed

theorem queryDistancePair_single_row_witness:
  "(rows grid_1_1 = 1 \<or> columns grid_1_1 = 1)
   \<and> cellSize Validated grid_1_1 = Inr \<lparr>vx = 1, vy = 1\<rparr> \<and> (1::real) \<le> min 1 1
   \<and> queryDistancePair Validated pos_line hash_addr bucket_7 grid_1_1 1 = Inr []
   \<and> queryDistancePair Performance pos_line hash_addr bucket_7 grid_1_1 7 = Inr []"
proof -
  have r: "rows grid_1_1 = 1 \<or> columns grid_1_1 = 1"
    by (simp add: fixture_defs)
  have cs: "cellSize Validated grid_1_1 = Inr \<lparr>vx = 1, vy = 1\<rparr>"
    by (simp add: getCellIndex_defs fixture_defs)
  then have v: "Validated = Performance
      \<or> (\<exists>cs. cellSize Validated grid_1_1 = Inr cs \<and> 1 \<le> min (vx cs) (vy cs))"
    by simp
  have p: "Performance = Performance
      \<or> (\<exists>cs. cellSize Performance grid_1_1 = Inr cs \<and> 7 \<le> min (vx cs) (vy cs))"
    by simp
  from queryDistancePair_single_row [OF r v, of pos_line hash_addr bucket_7]
    queryDistancePair_single_row [OF r p, of pos_line hash_addr bucket_7] r cs
  show ?thesis by simp
qed

text \<open>
  C1, evaluated where it fails. The single-cell grid is what the constructor builds
  with two bodies added; both bodies reside in the cell \<^verbatim>\<open>getCellIndex\<close> computes, they
  are 0.2 apart and the distance 0.5 is within the cell size 1. \<^verbatim>\<open>queryDistancePair\<close>
  returns the empty set, because no sweep position \<open>(row, col)\<close> with \<open>1 \<le> row < 1\<close>
  exists.
\<close>

theorem queryDistancePair_single_cell_misses:
  "Grid_wf grid_1_1
   \<and> cell_of grid_1_1 0 = [1, 2]
   \<and> getCellIndex Validated pos_line grid_1_1 1 = Inr (0, 0)
   \<and> getCellIndex Validated pos_line grid_1_1 2 = Inr (0, 0)
   \<and> cellSize Validated grid_1_1 = Inr \<lparr>vx = 1, vy = 1\<rparr>
   \<and> distance (pos_line 1) (pos_line 2) \<le> 0.5
   \<and> queryDistancePair Validated pos_line hash_addr bucket_7 grid_1_1 0.5 = Inr []"
proof -
  have "distance (pos_line 1) (pos_line 2) \<le> 0.5
          \<longleftrightarrow> distance2 (pos_line 1) (pos_line 2) \<le> 0.5 ^ 2"
    by (rule distance_le_iff) simp
  then have "distance (pos_line 1) (pos_line 2) \<le> 0.5"
    by (simp add: distance2_def pos_line_def power2_eq_square)
  moreover have "Grid_wf grid_1_1
      \<and> cell_of grid_1_1 0 = [1, 2]
      \<and> getCellIndex Validated pos_line grid_1_1 1 = Inr (0, 0)
      \<and> getCellIndex Validated pos_line grid_1_1 2 = Inr (0, 0)
      \<and> cellSize Validated grid_1_1 = Inr \<lparr>vx = 1, vy = 1\<rparr>
      \<and> queryDistancePair Validated pos_line hash_addr bucket_7 grid_1_1 0.5 = Inr []"
    by code_simp
  ultimately show ?thesis by simp
qed

end
